theory Spec2Isabelle
  imports Complex_Main
begin

section \<open>The PDF object graph\<close>

text \<open>
  The service works on the object graph that pypdf builds from a PDF file. A dictionary
  is an association list in insertion order (Python dictionaries keep it, and the order
  of the keys of an appearance dictionary is the order of the states); its keys are the
  texts of name objects, slash included. An indirect object is a reference into the
  document's object table, the \<open>store\<close>. Stream objects are dictionaries here: nothing
  below reads their data. Numbers are reals: the code only reads them with \<open>float\<close>.
\<close>

datatype pdfobj =
    NullObject
  | BooleanObject bool
  | NumberObject real
  | NameObject string
  | TextStringObject string
  | ArrayObject "pdfobj list"
  | DictionaryObject "(string \<times> pdfobj) list"
  | IndirectObject nat

type_synonym store = "nat \<Rightarrow> pdfobj option"

text \<open>The exceptions that the operations of Python and pypdf raise on an operand of the
  wrong class, and the one that fpdf raises on a text that its core fonts cannot encode.\<close>

datatype exn =
  AttributeError | TypeError | ValueError | KeyError | IndexError | FPDFUnicodeEncodingException

subsection \<open>Python strings\<close>

text \<open>
  Characters are bytes. \<open>str.lower\<close> is modelled on the ASCII letters; the code compares
  lowered strings only with ASCII words that contain neither \<open>k\<close> nor \<open>i\<close>, and no
  character outside ASCII lowers to one of their letters, so the outcome of every such
  comparison is the one of Python. \<open>str.strip\<close> removes the characters that
  \<open>str.isspace\<close> accepts; among the bytes these are the ASCII white space, the next-line
  character \<open>0x85\<close> and the no-break space \<open>0xA0\<close>.
\<close>

definition str_lower_char :: "char \<Rightarrow> char" where
  "str_lower_char c =
     (case map_of (zip ''ABCDEFGHIJKLMNOPQRSTUVWXYZ'' ''abcdefghijklmnopqrstuvwxyz'') c of
        Some l \<Rightarrow> l
      | None \<Rightarrow> c)"

definition str_lower :: "string \<Rightarrow> string" where
  "str_lower s = map str_lower_char s"

definition is_space :: "char \<Rightarrow> bool" where
  "is_space c =
     (c \<in> set [CHR 0x09, CHR 0x0A, CHR 0x0B, CHR 0x0C, CHR 0x0D,
                CHR 0x1C, CHR 0x1D, CHR 0x1E, CHR 0x1F, CHR '' '', CHR 0x85, CHR 0xA0])"

definition str_strip :: "string \<Rightarrow> string" where
  "str_strip s = rev (dropWhile is_space (rev (dropWhile is_space s)))"

fun startswith :: "string \<Rightarrow> string \<Rightarrow> bool" where
  "startswith s [] = True"
| "startswith [] (p # ps) = False"
| "startswith (c # cs) (p # ps) = (c = p \<and> startswith cs ps)"

text \<open>\<open>needle in s\<close> on strings: \<open>needle\<close> occurs in \<open>s\<close> as a contiguous piece.\<close>

fun str_contains :: "string \<Rightarrow> string \<Rightarrow> bool" where
  "str_contains [] needle = (needle = [])"
| "str_contains (c # cs) needle = (startswith (c # cs) needle \<or> str_contains cs needle)"

text \<open>\<open>sep.join(parts)\<close>.\<close>

fun str_join :: "string \<Rightarrow> string list \<Rightarrow> string" where
  "str_join sep [] = []"
| "str_join sep [p] = p"
| "str_join sep (p # q # ps) = p @ sep @ str_join sep (q # ps)"

text \<open>The decimal digits of a natural number, and \<open>str\<close> of an integer.\<close>

function dec :: "nat \<Rightarrow> string" where
  "dec n =
     (if n < 10 then [''0123456789'' ! n]
      else dec (n div 10) @ [''0123456789'' ! (n mod 10)])"
  by pat_completeness auto
termination
  by (relation "measure id") auto

declare dec.simps [simp del]

definition str_int :: "int \<Rightarrow> string" where
  "str_int i = (if i < 0 then ''-'' @ dec (nat (- i)) else dec (nat i))"

subsection \<open>Dynamic operations on objects\<close>

text \<open>
  Truth value of an object in a condition (\<open>if x:\<close>, \<open>while x:\<close>, \<open>x or y\<close>): numbers,
  strings, arrays and dictionaries are false when zero or empty; the other classes
  define neither \<open>__bool__\<close> nor \<open>__len__\<close>, so their instances are true.
  The value \<open>None\<close> of Python is \<open>None\<close> here, and it is false.
\<close>

fun truthy :: "pdfobj \<Rightarrow> bool" where
  "truthy NullObject = True"
| "truthy (BooleanObject b) = True"
| "truthy (NumberObject x) = (x \<noteq> 0)"
| "truthy (NameObject s) = (s \<noteq> [])"
| "truthy (TextStringObject s) = (s \<noteq> [])"
| "truthy (ArrayObject xs) = (xs \<noteq> [])"
| "truthy (DictionaryObject d) = (d \<noteq> [])"
| "truthy (IndirectObject n) = True"

fun is_true :: "pdfobj option \<Rightarrow> bool" where
  "is_true None = False"
| "is_true (Some v) = truthy v"

text \<open>
  An indirect object forwards attribute access, item access, membership, iteration and
  \<open>float\<close> to the object it points to; \<open>target\<close> is that object, and \<open>None\<close> when the
  reference dangles (the access raises then).
\<close>

fun target :: "store \<Rightarrow> pdfobj \<Rightarrow> pdfobj option" where
  "target st (IndirectObject n) = st n"
| "target st ob = Some ob"

text \<open>\<open>try: x.get_object() / except Exception: x\<close>: a direct object is its own object; a
  reference that cannot be resolved is kept as it is.\<close>

definition get_object_or_self :: "store \<Rightarrow> pdfobj \<Rightarrow> pdfobj" where
  "get_object_or_self st x = (case target st x of Some ob \<Rightarrow> ob | None \<Rightarrow> x)"

text \<open>\<open>ob.get(key)\<close>: the raw entry of a dictionary (\<open>dict.get\<close> resolves nothing), \<open>None\<close>
  when the key is absent; an object that is no dictionary has no \<open>get\<close>.\<close>

definition py_get :: "store \<Rightarrow> pdfobj \<Rightarrow> string \<Rightarrow> exn + pdfobj option" where
  "py_get st ob key =
     (case target st ob of
        Some (DictionaryObject d) \<Rightarrow> Inr (map_of d key)
      | _ \<Rightarrow> Inl AttributeError)"

text \<open>\<open>str(x)\<close> of a name or a text string is its text. What \<open>str\<close> prints for the other
  classes is left open: no equation is given for them.\<close>

fun py_str :: "pdfobj \<Rightarrow> string" where
  "py_str (NameObject s) = s"
| "py_str (TextStringObject s) = s"

text \<open>\<open>x == s\<close> for a Python string \<open>s\<close>: names and text strings are strings.\<close>

fun py_eq_str :: "pdfobj \<Rightarrow> string \<Rightarrow> bool" where
  "py_eq_str (NameObject t) s = (t = s)"
| "py_eq_str (TextStringObject t) s = (t = s)"
| "py_eq_str ob s = False"

text \<open>\<open>for x in v\<close>: the items of an array, the keys of a dictionary, the characters of
  a string.\<close>

definition py_iter :: "store \<Rightarrow> pdfobj \<Rightarrow> exn + pdfobj list" where
  "py_iter st v =
     (case target st v of
        Some (ArrayObject xs) \<Rightarrow> Inr xs
      | Some (DictionaryObject d) \<Rightarrow> Inr (map (\<lambda>kv. NameObject (fst kv)) d)
      | Some (NameObject s) \<Rightarrow> Inr (map (\<lambda>c. TextStringObject [c]) s)
      | Some (TextStringObject s) \<Rightarrow> Inr (map (\<lambda>c. TextStringObject [c]) s)
      | _ \<Rightarrow> Inl TypeError)"

text \<open>\<open>key in v\<close> for a Python string \<open>key\<close>.\<close>

definition py_contains :: "store \<Rightarrow> pdfobj \<Rightarrow> string \<Rightarrow> exn + bool" where
  "py_contains st v key =
     (case target st v of
        Some (DictionaryObject d) \<Rightarrow> Inr (key \<in> set (map fst d))
      | Some (ArrayObject xs) \<Rightarrow> Inr (\<exists>x \<in> set xs. py_eq_str x key)
      | Some (NameObject s) \<Rightarrow> Inr (str_contains s key)
      | Some (TextStringObject s) \<Rightarrow> Inr (str_contains s key)
      | _ \<Rightarrow> Inl TypeError)"

text \<open>\<open>v[key]\<close> for a Python string \<open>key\<close>: a dictionary of pypdf resolves the entry it
  returns; arrays and strings take no string index.\<close>

definition py_getitem :: "store \<Rightarrow> pdfobj \<Rightarrow> string \<Rightarrow> exn + pdfobj" where
  "py_getitem st v key =
     (case target st v of
        Some (DictionaryObject d) \<Rightarrow>
          (case map_of d key of
             None \<Rightarrow> Inl KeyError
           | Some x \<Rightarrow> (case target st x of Some ob \<Rightarrow> Inr ob | None \<Rightarrow> Inl KeyError))
      | _ \<Rightarrow> Inl TypeError)"

text \<open>\<open>v.keys()\<close>.\<close>

fun py_keys :: "pdfobj \<Rightarrow> exn + string list" where
  "py_keys (DictionaryObject d) = Inr (map fst d)"
| "py_keys ob = Inl AttributeError"

text \<open>\<open>float(v)\<close>. What it makes of a string is left open.\<close>

fun float_of :: "pdfobj \<Rightarrow> exn + real" where
  "float_of (NumberObject x) = Inr x"
| "float_of NullObject = Inl TypeError"
| "float_of (BooleanObject b) = Inl TypeError"
| "float_of (ArrayObject xs) = Inl TypeError"
| "float_of (DictionaryObject d) = Inl TypeError"
| "float_of (IndirectObject n) = Inl TypeError"

definition py_float :: "store \<Rightarrow> pdfobj \<Rightarrow> exn + real" where
  "py_float st v = (case target st v of Some ob \<Rightarrow> float_of ob | None \<Rightarrow> Inl TypeError)"

text \<open>Sequencing of steps that may raise.\<close>

definition and_then :: "'e + 'a \<Rightarrow> ('a \<Rightarrow> 'e + 'b) \<Rightarrow> 'e + 'b" where
  "and_then r f = (case r of Inl e \<Rightarrow> Inl e | Inr x \<Rightarrow> f x)"

section \<open>Button states\<close>

text \<open>\<open>s if s.startswith("/") else "/" + s\<close>.\<close>

definition slash :: "string \<Rightarrow> string" where
  "slash s = (if startswith s ''/'' then s else ''/'' @ s)"

text \<open>The loop \<open>for s in raw\<close> of \<open>_button_states\<close>.\<close>

fun append_declared :: "pdfobj list \<Rightarrow> string list \<Rightarrow> string list" where
  "append_declared [] states = states"
| "append_declared (s # raw) states = append_declared raw (states @ [slash (py_str s)])"

text \<open>The loop \<open>for k in ap["/N"].keys()\<close>.\<close>

fun append_keys :: "string list \<Rightarrow> string list \<Rightarrow> string list" where
  "append_keys [] states = states"
| "append_keys (k # ks) states =
     (let s = slash k
      in append_keys ks (if s \<in> set states then states else states @ [s]))"

text \<open>The loop \<open>for w in widgets\<close>.\<close>

fun append_appearances :: "store \<Rightarrow> pdfobj list \<Rightarrow> string list \<Rightarrow> exn + string list" where
  "append_appearances st [] states = Inr states"
| "append_appearances st (w # ws) states =
     (case py_get st w ''/AP'' of
        Inl e \<Rightarrow> Inl e
      | Inr None \<Rightarrow> append_appearances st ws states
      | Inr (Some ap) \<Rightarrow>
          if \<not> truthy ap then append_appearances st ws states
          else
            (case py_contains st ap ''/N'' of
               Inl e \<Rightarrow> Inl e
             | Inr False \<Rightarrow> append_appearances st ws states
             | Inr True \<Rightarrow>
                 (case py_getitem st ap ''/N'' of
                    Inl e \<Rightarrow> Inl e
                  | Inr n \<Rightarrow>
                      (case py_keys n of
                         Inl e \<Rightarrow> Inl e
                       | Inr ks \<Rightarrow> append_appearances st ws (append_keys ks states)))))"

text \<open>\<open>field_dict.get("/Kids", []) or [field_dict]\<close>, as the list the loop runs over.\<close>

definition widgets_of :: "store \<Rightarrow> pdfobj \<Rightarrow> exn + pdfobj list" where
  "widgets_of st field_dict =
     and_then (py_get st field_dict ''/Kids'')
       (\<lambda>kids. case kids of
          None \<Rightarrow> Inr [field_dict]
        | Some k \<Rightarrow> if truthy k then py_iter st k else Inr [field_dict])"

definition button_states :: "store \<Rightarrow> pdfobj \<Rightarrow> exn + string list" where
  "button_states st field_dict =
     and_then (py_get st field_dict ''/_States_'')
       (\<lambda>raw.
          and_then (if is_true raw then
                      and_then (py_iter st (the raw)) (\<lambda>items. Inr (append_declared items []))
                    else Inr [])
            (\<lambda>states.
               and_then (widgets_of st field_dict)
                 (\<lambda>widgets. append_appearances st widgets states)))"

text \<open>The loop of \<open>_on_value\<close>, and the function.\<close>

fun first_on :: "string list \<Rightarrow> string" where
  "first_on [] = ''/Yes''"
| "first_on (s # ss) = (if str_lower s \<noteq> ''/off'' then s else first_on ss)"

definition on_value :: "store \<Rightarrow> pdfobj \<Rightarrow> exn + string" where
  "on_value st field_dict = and_then (button_states st field_dict) (\<lambda>states. Inr (first_on states))"

subsection \<open>Values of the fill request\<close>

text \<open>
  A value of the JSON body. \<open>str\<close> of a string is the string, of an integer its decimal
  digits, of \<open>None\<close> the word \<open>None\<close>; what it prints for floats, lists and objects is
  left open.
\<close>

datatype json =
    JNull
  | JBool bool
  | JInt int
  | JFloat real
  | JStr string
  | JArr "json list"
  | JObj "(string \<times> json) list"

fun json_str :: "json \<Rightarrow> string" where
  "json_str (JStr s) = s"
| "json_str (JInt i) = str_int i"
| "json_str JNull = ''None''"
| "json_str (JBool b) = (if b then ''True'' else ''False'')"

definition normalize_checkbox_value :: "store \<Rightarrow> json \<Rightarrow> pdfobj \<Rightarrow> exn + string" where
  "normalize_checkbox_value st v field_dict =
     (case v of
        JBool b \<Rightarrow> if b then on_value st field_dict else Inr ''/Off''
      | _ \<Rightarrow>
          (let sval = str_strip (json_str v); low = str_lower sval
           in if low \<in> set [''true'', ''1'', ''yes'', ''y'', ''on''] then on_value st field_dict
              else if low \<in> set [''false'', ''0'', ''no'', ''n'', ''off''] then Inr ''/Off''
              else if low = ''off'' then Inr ''/Off''
              else if \<not> startswith sval ''/'' then Inr (''/'' @ sval)
              else Inr sval))"

section \<open>Field names and pages\<close>

text \<open>
  One round of the loop of \<open>_build_full_name\<close> on the object \<open>ob\<close>: the object to visit
  next (\<open>None\<close> when there is no parent) and the parts collected so far.
\<close>

definition name_step ::
  "store \<Rightarrow> pdfobj \<Rightarrow> string list \<Rightarrow> exn + (pdfobj option \<times> string list)" where
  "name_step st ob parts =
     and_then (py_get st ob ''/T'')
       (\<lambda>t. and_then (py_get st ob ''/Parent'')
          (\<lambda>parent.
             Inr (if is_true parent then Some (get_object_or_self st (the parent)) else None,
                  if is_true t then parts @ [py_str (the t)] else parts)))"

text \<open>The loop \<open>while obj:\<close>. It follows the parent entries as they are; a run that never
  leaves the loop has the value \<open>None\<close>.\<close>

partial_function (option) full_name_loop ::
  "store \<Rightarrow> pdfobj option \<Rightarrow> string list \<Rightarrow> (exn + string list) option" where
  "full_name_loop st obj parts =
     (if \<not> is_true obj then Some (Inr parts)
      else
        (case name_step st (the obj) parts of
           Inl e \<Rightarrow> Some (Inl e)
         | Inr (obj', parts') \<Rightarrow> full_name_loop st obj' parts'))"

definition build_full_name :: "store \<Rightarrow> pdfobj \<Rightarrow> (exn + string) option" where
  "build_full_name st annot =
     map_option (map_sum id (\<lambda>parts. str_join ''.'' (rev parts)))
       (full_name_loop st (Some annot) [])"

text \<open>The parent chain of an object: the object that its \<open>/Parent\<close> entry leads to, and
  the object reached after \<open>k\<close> such steps (\<open>None\<close> when the chain has ended before).\<close>

definition parent_of :: "store \<Rightarrow> pdfobj \<Rightarrow> pdfobj option" where
  "parent_of st ob =
     (case py_get st ob ''/Parent'' of
        Inr (Some p) \<Rightarrow> if truthy p then Some (get_object_or_self st p) else None
      | _ \<Rightarrow> None)"

fun ancestor :: "store \<Rightarrow> nat \<Rightarrow> pdfobj \<Rightarrow> pdfobj option" where
  "ancestor st 0 ob = Some ob"
| "ancestor st (Suc k) ob =
     (case parent_of st ob of None \<Rightarrow> None | Some p \<Rightarrow> ancestor st k p)"

text \<open>An object that has the method \<open>get\<close>: a dictionary, or a reference to one.\<close>

definition is_dictionary :: "store \<Rightarrow> pdfobj \<Rightarrow> bool" where
  "is_dictionary st ob =
     (case target st ob of Some (DictionaryObject d) \<Rightarrow> True | _ \<Rightarrow> False)"







section \<open>Overlay canvas and pages\<close>

text \<open>
  The canvas is the state of the fpdf object that the code draws on: unit, page format,
  current font (its size in points), text colour, cursor, and the cells drawn so far, page
  by page: \<open>drawn\<close> holds the cells of the first page, \<open>later_pages\<close> the pages that
  automatic page breaks have added, the last of them being the current page. Coordinates
  are in the unit of the canvas, from the top left corner. Floating-point numbers are
  taken as reals.

  The text of a cell is a Python string that may hold any character of Unicode: the list
  of its code points. \<open>code_points\<close> gives the code points of a string of bytes.
\<close>

definition code_points :: "string \<Rightarrow> nat list" where
  "code_points s = map of_char s"

record cell =
  cell_x :: real
  cell_y :: real
  cell_w :: real
  cell_h :: real
  cell_text :: "nat list"
  cell_align :: string
  cell_font :: "string \<times> string \<times> real"
  cell_color :: "nat \<times> nat \<times> nat"

record fpdf =
  canvas_unit :: string
  canvas_w :: real
  canvas_h :: real
  cur_font :: "string \<times> string \<times> real"
  cur_color :: "nat \<times> nat \<times> nat"
  cur_x :: real
  cur_y :: real
  drawn :: "cell list"
  later_pages :: "cell list list"

text \<open>\<open>FPDF(orientation="P", unit=u, format=(w, h))\<close>, \<open>set_margin(0)\<close>, \<open>add_page()\<close>: an
  empty page with the cursor in its top left corner. No font is selected yet. All four
  margins are 0, and automatic page breaks stay switched on, as they are by default.\<close>

definition new_canvas :: "string \<Rightarrow> real \<Rightarrow> real \<Rightarrow> fpdf" where
  "new_canvas u w h =
     \<lparr>canvas_unit = u, canvas_w = w, canvas_h = h, cur_font = ([], [], 12),
      cur_color = (0, 0, 0), cur_x = 0, cur_y = 0, drawn = [], later_pages = []\<rparr>"

definition set_font :: "string \<Rightarrow> string \<Rightarrow> real \<Rightarrow> fpdf \<Rightarrow> fpdf" where
  "set_font family style pt c = c\<lparr>cur_font := (family, style, pt)\<rparr>"

definition set_text_color :: "nat \<Rightarrow> nat \<Rightarrow> nat \<Rightarrow> fpdf \<Rightarrow> fpdf" where
  "set_text_color r g b c = c\<lparr>cur_color := (r, g, b)\<rparr>"

definition set_xy :: "real \<Rightarrow> real \<Rightarrow> fpdf \<Rightarrow> fpdf" where
  "set_xy x y c = c\<lparr>cur_x := x, cur_y := y\<rparr>"

text \<open>\<open>set_y\<close> also moves the cursor back to the left margin, which is 0.\<close>

definition set_y :: "real \<Rightarrow> fpdf \<Rightarrow> fpdf" where
  "set_y y c = c\<lparr>cur_x := 0, cur_y := y\<rparr>"

text \<open>
  The core fonts of fpdf (Helvetica and ZapfDingbats among them) encode the text of a
  cell in Latin-1; \<open>cell\<close> raises \<open>FPDFUnicodeEncodingException\<close> on a text with a
  character outside it.
\<close>

definition latin1 :: "nat list \<Rightarrow> bool" where
  "latin1 txt = list_all (\<lambda>c. c < 256) txt"

text \<open>
  The automatic page break of \<open>cell\<close>: a cell of height \<open>h\<close> that would end below the
  bottom margin (the bottom edge of the page, the margin being 0) goes to a new page,
  unless the cursor is at the top margin. The new page starts with the cursor at the
  top; \<open>cell\<close> keeps the abscissa.
\<close>

definition will_page_break :: "real \<Rightarrow> fpdf \<Rightarrow> bool" where
  "will_page_break h c = (cur_y c > 0 \<and> cur_y c + h > canvas_h c)"

definition page_break :: "fpdf \<Rightarrow> fpdf" where
  "page_break c = c\<lparr>later_pages := later_pages c @ [[]], cur_y := 0\<rparr>"

text \<open>A cell is drawn on the current page.\<close>

definition put_cell :: "cell \<Rightarrow> fpdf \<Rightarrow> fpdf" where
  "put_cell x c =
     (if later_pages c = [] then c\<lparr>drawn := drawn c @ [x]\<rparr>
      else c\<lparr>later_pages := butlast (later_pages c) @ [last (later_pages c) @ [x]]\<rparr>)"

text \<open>\<open>cell(w, h, text, align=a)\<close>: the text is encoded first; then, after the page break
  if there is one, a cell with its top left corner at the cursor, in the current font and
  colour; width 0 means up to the right margin. The cursor moves to the right end of the
  cell.\<close>

definition draw_cell :: "real \<Rightarrow> real \<Rightarrow> nat list \<Rightarrow> string \<Rightarrow> fpdf \<Rightarrow> exn + fpdf" where
  "draw_cell w h txt a c =
     (if \<not> latin1 txt then Inl FPDFUnicodeEncodingException
      else
        (let c1 = (if will_page_break h c then page_break c else c);
             w' = (if w = 0 then canvas_w c1 - cur_x c1 else w)
         in Inr ((put_cell
                    \<lparr>cell_x = cur_x c1, cell_y = cur_y c1, cell_w = w', cell_h = h,
                     cell_text = txt, cell_align = a, cell_font = cur_font c1,
                     cell_color = cur_color c1\<rparr> c1)
                  \<lparr>cur_x := cur_x c1 + w'\<rparr>)))"

text \<open>\<open>PdfReader(io.BytesIO(overlay.output())).pages[0]\<close>: of the pages of the canvas only
  the first is read.\<close>

definition first_page :: "fpdf \<Rightarrow> fpdf" where
  "first_page c = c\<lparr>later_pages := []\<rparr>"

text \<open>
  Modelled from the spec: the height at which the text of a cell is written, which is
  decided by the \<open>cell\<close> method of fpdf, a library that is not under src/. Section 4.4
  says that the offset of \<open>0.4 \<times> font_size\<close> is there "to approximate baseline
  centering", and scenario C calls the position 96 "baseline-adjusted": the position of
  a text is the position of its baseline. fpdf puts the baseline at
  \<open>y + 0.5 h + 0.3 font_size\<close> below the top of the page, \<open>y\<close> being the top edge of the
  cell, \<open>h\<close> its height and \<open>font_size\<close> the font size in the unit of the canvas (the size
  in points divided by the scale factor of the unit).
\<close>

definition unit_scale :: "string \<Rightarrow> real" where
  "unit_scale u = (if u = ''mm'' then 72 / 25.4 else 1)"

definition text_baseline :: "string \<Rightarrow> cell \<Rightarrow> real" where
  "text_baseline u c =
     cell_y c + 0.5 * cell_h c + 0.3 * (snd (snd (cell_font c)) / unit_scale u)"

text \<open>
  A page of the document: the items of its \<open>/Annots\<close> array, the width and height of its
  media box, and its content, a list of layers: pieces of the original content stream
  and the canvases merged onto the page.
\<close>

datatype layer = Existing string | Overlay fpdf

record page =
  page_annots :: "pdfobj list"
  box_width :: real
  box_height :: real
  page_contents :: "layer list"

text \<open>Modelled from the spec: pypdf's \<open>page.merge_page(overlay_page)\<close>, which is not under
  src/. Section 4.4, \<open>merge(target_page, canvas)\<close>: "composite the canvas's single page
  content onto the target page, preserving the target page's existing content and
  annotations". The media box of the target is not touched.\<close>

definition merge_page :: "page \<Rightarrow> fpdf \<Rightarrow> page" where
  "merge_page p canvas = p\<lparr>page_contents := page_contents p @ [Overlay canvas]\<rparr>"

text \<open>The writer: its pages, its object table and its root dictionary (the catalog).\<close>

record writer =
  writer_pages :: "page list"
  writer_objects :: store
  writer_root :: "(string \<times> pdfobj) list"

section \<open>Text overlays\<close>

text \<open>Operations on the values of the JSON body: \<open>d.get(key, default)\<close>, \<open>float(v)\<close>, and
  the truth value of \<open>v\<close>. What \<open>float\<close> makes of a string is left open.\<close>

fun json_get :: "json \<Rightarrow> string \<Rightarrow> json \<Rightarrow> exn + json" where
  "json_get (JObj kvs) key dflt = Inr (case map_of kvs key of None \<Rightarrow> dflt | Some v \<Rightarrow> v)"
| "json_get v key dflt = Inl AttributeError"

fun json_float :: "json \<Rightarrow> exn + real" where
  "json_float (JInt i) = Inr (of_int i)"
| "json_float (JFloat r) = Inr r"
| "json_float (JBool b) = Inr (if b then 1 else 0)"
| "json_float JNull = Inl TypeError"
| "json_float (JArr xs) = Inl TypeError"
| "json_float (JObj kvs) = Inl TypeError"

fun json_truthy :: "json \<Rightarrow> bool" where
  "json_truthy JNull = False"
| "json_truthy (JBool b) = b"
| "json_truthy (JInt i) = (i \<noteq> 0)"
| "json_truthy (JFloat r) = (r \<noteq> 0)"
| "json_truthy (JStr s) = (s \<noteq> [])"
| "json_truthy (JArr xs) = (xs \<noteq> [])"
| "json_truthy (JObj kvs) = (kvs \<noteq> [])"

text \<open>
  \<open>ov.get("page", 1) - 1\<close>: the number, and whether it is an \<open>int\<close> (only an \<open>int\<close> can
  index the pages).
\<close>

fun page_index :: "json \<Rightarrow> exn + (real \<times> bool)" where
  "page_index (JInt i) = Inr (of_int i - 1, True)"
| "page_index (JBool b) = Inr ((if b then 1 else 0) - 1, True)"
| "page_index (JFloat r) = Inr (r - 1, False)"
| "page_index v = Inl TypeError"

text \<open>\<open>by_page.setdefault(pg, []).append(ov)\<close>: keys are compared as numbers, and a key
  that is present stays the object that was inserted first.\<close>

fun group_add :: "real \<times> bool \<Rightarrow> json \<Rightarrow> ((real \<times> bool) \<times> json list) list \<Rightarrow>
    ((real \<times> bool) \<times> json list) list" where
  "group_add pg ov [] = [(pg, [ov])]"
| "group_add pg ov ((k, items) # rest) =
     (if fst k = fst pg then (k, items @ [ov]) # rest else (k, items) # group_add pg ov rest)"

text \<open>The loop \<open>for ov in overlays\<close>.\<close>

fun group_by_page :: "json list \<Rightarrow> ((real \<times> bool) \<times> json list) list \<Rightarrow>
    exn + ((real \<times> bool) \<times> json list) list" where
  "group_by_page [] by_page = Inr by_page"
| "group_by_page (ov # ovs) by_page =
     and_then (json_get ov ''page'' (JInt 1))
       (\<lambda>p. and_then (page_index p) (\<lambda>pg. group_by_page ovs (group_add pg ov by_page)))"

text \<open>The body of the loop \<open>for item in items\<close>: one text cell on the overlay of a page
  of height \<open>h_pt\<close>.\<close>

definition draw_text_item :: "real \<Rightarrow> json \<Rightarrow> fpdf \<Rightarrow> exn + fpdf" where
  "draw_text_item h_pt item overlay =
     and_then (and_then (json_get item ''x'' (JInt 0)) json_float)
       (\<lambda>x. and_then (and_then (json_get item ''y'' (JInt 0)) json_float)
       (\<lambda>y_pdf. and_then (json_get item ''text'' (JStr []))
       (\<lambda>t. and_then (and_then (json_get item ''fontSize'' (JInt 8)) json_float)
       (\<lambda>font_size. and_then (json_get item ''bold'' (JBool False))
       (\<lambda>bold.
          let txt = json_str t;
              y_fpdf = h_pt - y_pdf;
              style = (if json_truthy bold then ''B'' else [])
          in draw_cell 0 font_size (code_points txt) []
               (set_xy x (y_fpdf - font_size * 0.4)
                 (set_text_color 0 0 0
                   (set_font ''Helvetica'' style font_size overlay))))))))"

fun draw_text_items :: "real \<Rightarrow> json list \<Rightarrow> fpdf \<Rightarrow> exn + fpdf" where
  "draw_text_items h_pt [] overlay = Inr overlay"
| "draw_text_items h_pt (item # items) overlay =
     and_then (draw_text_item h_pt item overlay) (draw_text_items h_pt items)"

text \<open>The loop \<open>for page_idx, items in by_page.items()\<close>.\<close>

fun overlay_pages :: "((real \<times> bool) \<times> json list) list \<Rightarrow> page list \<Rightarrow> exn + page list" where
  "overlay_pages [] pgs = Inr pgs"
| "overlay_pages ((k, items) # rest) pgs =
     (if fst k < 0 \<or> fst k \<ge> real (length pgs) then overlay_pages rest pgs
      else if \<not> snd k then Inl TypeError
      else
        (let i = nat \<lfloor>fst k\<rfloor>;
             pg = pgs ! i;
             w_pt = box_width pg;
             h_pt = box_height pg
         in and_then (draw_text_items h_pt items (new_canvas ''pt'' w_pt h_pt))
              (\<lambda>overlay. overlay_pages rest (pgs[i := merge_page pg (first_page overlay)]))))"

definition apply_text_overlays :: "writer \<Rightarrow> json list \<Rightarrow> exn + writer" where
  "apply_text_overlays w overlays =
     and_then (group_by_page overlays [])
       (\<lambda>by_page. and_then (overlay_pages by_page (writer_pages w)) (\<lambda>pgs. Inr (w\<lparr>writer_pages := pgs\<rparr>)))"

section \<open>Header stamping\<close>

text \<open>\<open>_create_header_overlay\<close>. The text is the query parameter of the request, a
  Python string.\<close>

definition create_header_overlay :: "real \<Rightarrow> real \<Rightarrow> nat list \<Rightarrow> exn + fpdf" where
  "create_header_overlay width_pt height_pt txt =
     (let w_mm = width_pt * 25.4 / 72;
          h_mm = height_pt * 25.4 / 72
      in draw_cell w_mm 5 txt ''C''
           (set_y 3
             (set_text_color 160 160 160
               (set_font ''Helvetica'' [] 8 (new_canvas ''mm'' w_mm h_mm)))))"

text \<open>The loop \<open>for page in reader.pages\<close> of \<open>stamp_header\<close>: each page is merged with the
  first page of its header overlay and added to the writer, whose pages so far are
  \<open>out\<close>.\<close>

fun stamp_pages :: "nat list \<Rightarrow> page list \<Rightarrow> page list \<Rightarrow> exn + page list" where
  "stamp_pages txt [] out = Inr out"
| "stamp_pages txt (pg # rest) out =
     (let w = box_width pg;
          h = box_height pg
      in and_then (create_header_overlay w h txt)
           (\<lambda>overlay. stamp_pages txt rest (out @ [merge_page pg (first_page overlay)])))"

section \<open>Appearance synchronisation\<close>

text \<open>Assignment to a key of a dictionary: a key that is present keeps its place.\<close>

fun dict_set :: "('k \<times> 'v) list \<Rightarrow> 'k \<Rightarrow> 'v \<Rightarrow> ('k \<times> 'v) list" where
  "dict_set [] k v = [(k, v)]"
| "dict_set ((k', v') # d) k v =
     (if k' = k then (k', v) # d else (k', v') # dict_set d k v)"

text \<open>Steps that may raise or may not return (\<open>None\<close>).\<close>

definition and_next ::
  "('e + 'a) option \<Rightarrow> ('a \<Rightarrow> ('e + 'b) option) \<Rightarrow> ('e + 'b) option" where
  "and_next r f =
     (case r of None \<Rightarrow> None | Some (Inl e) \<Rightarrow> Some (Inl e) | Some (Inr x) \<Rightarrow> f x)"

text \<open>The field type of an annotation: its own \<open>/FT\<close>, or that of its parent when it has
  none; \<open>ft != "/Btn"\<close> is the negation of \<open>is_btn\<close>.\<close>

definition field_type :: "store \<Rightarrow> pdfobj \<Rightarrow> exn + pdfobj option" where
  "field_type st annot =
     and_then (py_get st annot ''/FT'')
       (\<lambda>ft. if \<not> is_true ft then
                and_then (py_get st annot ''/Parent'')
                  (\<lambda>parent.
                     if is_true parent
                     then py_get st (get_object_or_self st (the parent)) ''/FT''
                     else Inr ft)
              else Inr ft)"

definition is_btn :: "pdfobj option \<Rightarrow> bool" where
  "is_btn ft = (case ft of None \<Rightarrow> False | Some v \<Rightarrow> py_eq_str v ''/Btn'')"

text \<open>
  \<open>annot.update({"/AS": val, "/V": val})\<close> with \<open>val = NameObject(sval)\<close>. The annotation
  is the object of the table that \<open>annot_ref\<close> refers to, or the dictionary \<open>annot_ref\<close>
  itself when that is a direct object; the result is the item of the page's array after
  the update, and the table after it.
\<close>

definition set_state :: "(string \<times> pdfobj) list \<Rightarrow> string \<Rightarrow> (string \<times> pdfobj) list" where
  "set_state d sval = dict_set (dict_set d ''/AS'' (NameObject sval)) ''/V'' (NameObject sval)"

definition update_annot :: "store \<Rightarrow> pdfobj \<Rightarrow> pdfobj \<Rightarrow> string \<Rightarrow> pdfobj \<times> store" where
  "update_annot st annot_ref annot sval =
     (case annot of
        DictionaryObject d \<Rightarrow>
          (case annot_ref of
             IndirectObject n \<Rightarrow> (annot_ref, st(n \<mapsto> DictionaryObject (set_state d sval)))
           | _ \<Rightarrow> (DictionaryObject (set_state d sval), st))
      | IndirectObject m \<Rightarrow>
          (case st m of
             Some (DictionaryObject d) \<Rightarrow>
               (annot_ref, st(m \<mapsto> DictionaryObject (set_state d sval)))
           | _ \<Rightarrow> (annot_ref, st))
      | _ \<Rightarrow> (annot_ref, st))"

text \<open>\<open>[float(v) for v in rect]\<close>.\<close>

fun floats :: "store \<Rightarrow> pdfobj list \<Rightarrow> exn + real list" where
  "floats st [] = Inr []"
| "floats st (v # vs) =
     and_then (py_float st v) (\<lambda>x. and_then (floats st vs) (\<lambda>xs. Inr (x # xs)))"

definition coords_of :: "store \<Rightarrow> pdfobj \<Rightarrow> exn + real list" where
  "coords_of st rect = and_then (py_iter st rect) (floats st)"

text \<open>\<open>checked_by_page.setdefault(page_idx, []).append(coords)\<close>.\<close>

fun checked_add ::
  "nat \<Rightarrow> real list \<Rightarrow> (nat \<times> real list list) list \<Rightarrow> (nat \<times> real list list) list" where
  "checked_add i c [] = [(i, [c])]"
| "checked_add i c ((k, rects) # rest) =
     (if k = i then (k, rects @ [c]) # rest else (k, rects) # checked_add i c rest)"

text \<open>
  The body of the loop \<open>for annot_ref in annots\<close> of \<open>_apply_checkbox_appearances\<close>, for
  the item \<open>annot_ref\<close> of page \<open>page_idx\<close>: the item after the round, the object table and
  \<open>checked_by_page\<close>.
\<close>

definition mark_annot ::
  "(string \<times> string) list \<Rightarrow> nat \<Rightarrow> pdfobj \<Rightarrow> store \<Rightarrow> (nat \<times> real list list) list \<Rightarrow>
     (exn + pdfobj \<times> store \<times> (nat \<times> real list list) list) option" where
  "mark_annot btn_values_by_name page_idx annot_ref st checked =
     (let annot = get_object_or_self st annot_ref
      in and_next (Some (field_type st annot))
           (\<lambda>ft.
              if \<not> is_btn ft then Some (Inr (annot_ref, st, checked))
              else
                and_next (build_full_name st annot)
                  (\<lambda>full_name.
                     case map_of btn_values_by_name full_name of
                       None \<Rightarrow> Some (Inr (annot_ref, st, checked))
                     | Some sval \<Rightarrow>
                         if sval = [] then Some (Inr (annot_ref, st, checked))
                         else
                           (let (item, st') = update_annot st annot_ref annot sval
                            in if str_lower sval \<noteq> ''/off'' then
                                 and_next (Some (py_get st' (get_object_or_self st' item) ''/Rect''))
                                   (\<lambda>rect.
                                      if is_true rect then
                                        and_next (Some (coords_of st' (the rect)))
                                          (\<lambda>coords.
                                             Some (Inr (item, st',
                                               checked_add page_idx coords checked)))
                                      else Some (Inr (item, st', checked)))
                               else Some (Inr (item, st', checked))))))"

fun mark_annots ::
  "(string \<times> string) list \<Rightarrow> nat \<Rightarrow> pdfobj list \<Rightarrow> store \<Rightarrow> (nat \<times> real list list) list \<Rightarrow>
     (exn + pdfobj list \<times> store \<times> (nat \<times> real list list) list) option" where
  "mark_annots btn page_idx [] st checked = Some (Inr ([], st, checked))"
| "mark_annots btn page_idx (annot_ref # rest) st checked =
     and_next (mark_annot btn page_idx annot_ref st checked)
       (\<lambda>(item, st', checked').
          and_next (mark_annots btn page_idx rest st' checked')
            (\<lambda>(items, st'', checked''). Some (Inr (item # items, st'', checked''))))"

text \<open>The loop \<open>for page_idx, page in enumerate(writer.pages)\<close>.\<close>

fun mark_pages ::
  "(string \<times> string) list \<Rightarrow> nat \<Rightarrow> page list \<Rightarrow> store \<Rightarrow> (nat \<times> real list list) list \<Rightarrow>
     (exn + page list \<times> store \<times> (nat \<times> real list list) list) option" where
  "mark_pages btn page_idx [] st checked = Some (Inr ([], st, checked))"
| "mark_pages btn page_idx (pg # rest) st checked =
     and_next (mark_annots btn page_idx (page_annots pg) st checked)
       (\<lambda>(items, st', checked').
          and_next (mark_pages btn (page_idx + 1) rest st' checked')
            (\<lambda>(pgs, st'', checked'').
               Some (Inr (pg\<lparr>page_annots := items\<rparr> # pgs, st'', checked''))))"

text \<open>Step 1 of \<open>_apply_checkbox_appearances\<close>: the writer after it, and \<open>checked_by_page\<close>.\<close>

definition collect_checked ::
  "writer \<Rightarrow> (string \<times> string) list \<Rightarrow> (exn + writer \<times> (nat \<times> real list list) list) option" where
  "collect_checked w btn =
     and_next (mark_pages btn 0 (writer_pages w) (writer_objects w) [])
       (\<lambda>(pgs, st, checked). Some (Inr (w\<lparr>writer_pages := pgs, writer_objects := st\<rparr>, checked)))"

text \<open>Step 2: the loop \<open>for x1, y1, x2, y2 in rects\<close> (a list that has not four items
  cannot be unpacked), and the loop over the pages that have checked rectangles.\<close>

fun draw_checkmarks :: "real \<Rightarrow> real list list \<Rightarrow> fpdf \<Rightarrow> exn + fpdf" where
  "draw_checkmarks h_pt [] overlay = Inr overlay"
| "draw_checkmarks h_pt (r # rects) overlay =
     (case r of
        [x1, y1, x2, y2] \<Rightarrow>
          (let cx = (x1 + x2) / 2;
               cy_fpdf = h_pt - (y1 + y2) / 2;
               sz = min (x2 - x1) (y2 - y1) * 0.7
           in and_then
                (draw_cell sz sz (code_points ''4'') ''C''
                  (set_xy (cx - sz / 2) (cy_fpdf - sz / 2)
                    (set_text_color 0 0 0 (set_font ''ZapfDingbats'' [] sz overlay))))
                (draw_checkmarks h_pt rects))
      | _ \<Rightarrow> Inl ValueError)"

fun stamp_checked :: "(nat \<times> real list list) list \<Rightarrow> page list \<Rightarrow> exn + page list" where
  "stamp_checked [] pgs = Inr pgs"
| "stamp_checked ((page_idx, rects) # rest) pgs =
     (let pg = pgs ! page_idx;
          w_pt = box_width pg;
          h_pt = box_height pg
      in and_then (draw_checkmarks h_pt rects (new_canvas ''pt'' w_pt h_pt))
           (\<lambda>overlay. stamp_checked rest (pgs[page_idx := merge_page pg (first_page overlay)])))"

definition apply_checkbox_appearances ::
  "writer \<Rightarrow> (string \<times> string) list \<Rightarrow> (exn + writer) option" where
  "apply_checkbox_appearances w btn_values_by_name =
     and_next (collect_checked w btn_values_by_name)
       (\<lambda>(w', checked).
          Some (and_then (stamp_checked checked (writer_pages w'))
                  (\<lambda>pgs. Inr (w'\<lparr>writer_pages := pgs\<rparr>))))"

section \<open>Requests\<close>

text \<open>
  What a request ends with when it fails: an \<open>HTTPException\<close> with its status code and
  its detail. The handlers build the detail of a caught exception \<open>e\<close> as a prefix
  followed by \<open>type(e).__name__\<close>, a dash and \<open>str(e)\<close>; \<open>Caught\<close> keeps the prefix and
  the exception. \<open>LibraryError\<close> is an exception of pypdf or of the JSON decoder, by the
  name of its class.
\<close>

datatype exception =
    HTTPException nat detail
  | Raised exn
  | LibraryError string
and detail =
    Detail string
  | Caught string exception

definition raised :: "exn + 'a \<Rightarrow> exception + 'a" where
  "raised r = (case r of Inl e \<Rightarrow> Inl (Raised e) | Inr x \<Rightarrow> Inr x)"

text \<open>\<open>stamp_header\<close>. \<open>parsed\<close> is what \<open>PdfReader\<close> makes of the uploaded bytes: the pages
  of the document, or the exception it raises. The handler \<open>except Exception as e\<close> turns
  every exception of the body into a response of status 500.\<close>

definition stamp_header ::
  "string \<Rightarrow> exception + page list \<Rightarrow> nat list \<Rightarrow> exception + page list" where
  "stamp_header content_type parsed txt =
     (if content_type \<noteq> ''application/pdf''
      then Inl (HTTPException 400 (Detail ''El archivo debe ser un PDF.''))
      else
        (case parsed of
           Inl e \<Rightarrow> Inl (HTTPException 500 (Caught ''Error al estampar header: '' e))
         | Inr pgs \<Rightarrow>
             (case stamp_pages txt pgs [] of
                Inl e \<Rightarrow>
                  Inl (HTTPException 500 (Caught ''Error al estampar header: '' (Raised e)))
              | Inr out \<Rightarrow> Inr out)))"

text \<open>
  \<open>_resolve_acroform\<close> and \<open>_remove_xfa\<close>. The \<open>/AcroForm\<close> entry of the root is resolved
  without a handler, so a reference that dangles raises.
\<close>

definition remove_xfa :: "writer \<Rightarrow> exn + writer" where
  "remove_xfa w =
     (case map_of (writer_root w) ''/AcroForm'' of
        None \<Rightarrow> Inr w
      | Some acro_ref \<Rightarrow>
          if \<not> truthy acro_ref then Inr w
          else
            (case target (writer_objects w) acro_ref of
               None \<Rightarrow> Inl IndexError
             | Some acro \<Rightarrow>
                 if \<not> truthy acro then Inr w
                 else
                   and_then (py_contains (writer_objects w) acro ''/XFA'')
                     (\<lambda>has.
                        if \<not> has then Inr w
                        else
                          (case acro of
                             DictionaryObject d \<Rightarrow>
                               (let d' = filter (\<lambda>kv. fst kv \<noteq> ''/XFA'') d
                                in case acro_ref of
                                     IndirectObject n \<Rightarrow>
                                       Inr (w\<lparr>writer_objects :=
                                               (writer_objects w)(n \<mapsto> DictionaryObject d')\<rparr>)
                                   | _ \<Rightarrow>
                                       Inr (w\<lparr>writer_root :=
                                               dict_set (writer_root w) ''/AcroForm''
                                                 (DictionaryObject d')\<rparr>))
                           | _ \<Rightarrow> Inl TypeError))))"

text \<open>
  The reader, as far as \<open>fill_form\<close> uses it: its object table and what \<open>get_fields()\<close>
  returns, the fields by their qualified names (or \<open>None\<close>).
\<close>

record reader =
  reader_objects :: store
  reader_fields :: "(string \<times> pdfobj) list option"

text \<open>
  The two methods of the writer that \<open>fill_form\<close> calls and that belong to pypdf. They are
  parameters of the model. \<open>set_need_appearances_writer\<close> is called under a handler that
  passes on every exception, so it only changes the writer.
\<close>

record library =
  set_need_appearances_writer :: "writer \<Rightarrow> writer"
  update_page_form_field_values ::
    "writer \<Rightarrow> nat \<Rightarrow> (string \<times> json) list \<Rightarrow> exception + writer"

text \<open>The loop \<open>for name, fobj in fields.items()\<close> that builds \<open>mapping\<close> and \<open>btn_map\<close>;
  \<open>form_data\<close> is the body without the reserved key.\<close>

fun build_mappings ::
  "store \<Rightarrow> (string \<times> json) list \<Rightarrow> (string \<times> pdfobj) list \<Rightarrow>
     (string \<times> json) list \<Rightarrow> (string \<times> string) list \<Rightarrow>
     exn + (string \<times> json) list \<times> (string \<times> string) list" where
  "build_mappings st form_data [] mapping btn_map = Inr (mapping, btn_map)"
| "build_mappings st form_data ((name, fobj) # rest) mapping btn_map =
     (case map_of form_data name of
        None \<Rightarrow> build_mappings st form_data rest mapping btn_map
      | Some v \<Rightarrow>
          and_then (py_get st fobj ''/FT'')
            (\<lambda>ft.
               if is_btn ft then
                 and_then (normalize_checkbox_value st v fobj)
                   (\<lambda>sval.
                      build_mappings st form_data rest
                        (dict_set mapping name (JStr sval)) (dict_set btn_map name sval))
               else build_mappings st form_data rest (dict_set mapping name v) btn_map))"

text \<open>The loop \<open>for p in writer.pages\<close> around \<open>update_page_form_field_values\<close>.\<close>

fun update_pages ::
  "library \<Rightarrow> nat list \<Rightarrow> (string \<times> json) list \<Rightarrow> writer \<Rightarrow> exception + writer" where
  "update_pages lib [] mapping w = Inr w"
| "update_pages lib (p # ps) mapping w =
     and_then (update_page_form_field_values lib w p mapping) (update_pages lib ps mapping)"

text \<open>
  The part of the \<open>try\<close> of \<open>fill_form\<close> that follows the check of the body: \<open>members\<close>
  are the members of the JSON object, \<open>rd\<close> is the reader and \<open>wr\<close> the writer.
\<close>

definition fill_object ::
  "library \<Rightarrow> reader \<Rightarrow> writer \<Rightarrow> (string \<times> json) list \<Rightarrow> (exception + writer) option" where
  "fill_object lib rd wr members =
     (let overlays = map_of members ''__overlays'';
          form_data = filter (\<lambda>kv. fst kv \<noteq> ''__overlays'') members;
          flds = (case reader_fields rd of None \<Rightarrow> [] | Some fs \<Rightarrow> fs)
      in and_next (Some (raised (build_mappings (reader_objects rd) form_data flds [] [])))
           (\<lambda>(mapping, btn_map).
         and_next (Some (update_pages lib [0..<length (writer_pages wr)] mapping wr))
           (\<lambda>filled.
         and_next (map_option raised (apply_checkbox_appearances filled btn_map))
           (\<lambda>synced.
              case overlays of
                Some (JArr ovs) \<Rightarrow>
                  if ovs \<noteq> [] then Some (raised (apply_text_overlays synced ovs))
                  else Some (Inr synced)
              | _ \<Rightarrow> Some (Inr synced)))))"

text \<open>
  The body of the \<open>try\<close> of \<open>fill_form\<close>. \<open>parsed\<close> is what \<open>PdfReader\<close> and
  \<open>clone_document_from_reader\<close> make of the uploaded file (the reader and the writer that
  is its copy), \<open>decoded\<close> what \<open>json.loads\<close> makes of the uploaded data; each may be an
  exception instead. The object of a JSON body is the list of its members.
\<close>

definition fill_form_try ::
  "library \<Rightarrow> exception + reader \<times> writer \<Rightarrow> exception + json \<Rightarrow> (exception + writer) option" where
  "fill_form_try lib parsed decoded =
     and_next (Some parsed)
       (\<lambda>(rd, cloned).
     and_next (Some (raised (remove_xfa cloned)))
       (\<lambda>without_xfa.
          let wr = set_need_appearances_writer lib without_xfa
          in and_next (Some decoded)
               (\<lambda>form_data.
                  case form_data of
                    JObj members \<Rightarrow> fill_object lib rd wr members
                  | _ \<Rightarrow> Some (Inl (HTTPException 400 (Detail ''El JSON debe ser un objeto.''))))))"

text \<open>\<open>fill_form\<close>: the two checks of the content types, then the \<open>try\<close> with its handler
  \<open>except Exception as e\<close>, which turns every exception of the body into a response of
  status 500. The result \<open>Inr\<close> is the document that is written to the response.\<close>

definition fill_form ::
  "library \<Rightarrow> string \<Rightarrow> string \<Rightarrow> exception + reader \<times> writer \<Rightarrow> exception + json \<Rightarrow>
     (exception + writer) option" where
  "fill_form lib file_content_type data_content_type parsed decoded =
     (if file_content_type \<noteq> ''application/pdf''
      then Some (Inl (HTTPException 400 (Detail ''El archivo 'file' debe ser un PDF.'')))
      else if data_content_type \<noteq> ''application/json''
      then Some (Inl (HTTPException 400 (Detail ''El archivo 'data' debe ser un JSON.'')))
      else
        (case fill_form_try lib parsed decoded of
           None \<Rightarrow> None
         | Some (Inl e) \<Rightarrow> Some (Inl (HTTPException 500 (Caught ''Error al rellenar el PDF: '' e)))
         | Some (Inr w) \<Rightarrow> Some (Inr w)))"

section \<open>Page frames\<close>



section \<open>What the appearance synchronisation reads and writes\<close>

text \<open>
  Notions for the statements about \<open>_apply_checkbox_appearances\<close>. The update of a widget
  writes the keys \<open>/AS\<close> and \<open>/V\<close> of a dictionary that is not empty, and nothing else:
  two dictionaries are the same but for the state when they agree on every other key and
  are both empty or both not; \<open>frame\<close> relates two object tables whose objects are equal
  or such dictionaries.
\<close>

definition same_but_state :: "(string \<times> pdfobj) list \<Rightarrow> (string \<times> pdfobj) list \<Rightarrow> bool" where
  "same_but_state d d' =
     ((d = [] \<longleftrightarrow> d' = []) \<and>
      (\<forall>k. k \<noteq> ''/AS'' \<longrightarrow> k \<noteq> ''/V'' \<longrightarrow> map_of d' k = map_of d k))"

definition sim :: "pdfobj \<Rightarrow> pdfobj \<Rightarrow> bool" where
  "sim a b =
     (a = b \<or> (\<exists>d d'. a = DictionaryObject d \<and> b = DictionaryObject d' \<and> same_but_state d d'))"

definition sim_opt :: "pdfobj option \<Rightarrow> pdfobj option \<Rightarrow> bool" where
  "sim_opt x y =
     (case x of None \<Rightarrow> y = None | Some a \<Rightarrow> (case y of None \<Rightarrow> False | Some b \<Rightarrow> sim a b))"

definition frame :: "store \<Rightarrow> store \<Rightarrow> bool" where
  "frame st0 st = (\<forall>n. sim_opt (st0 n) (st n))"

text \<open>
  The state name that the synchronisation assigns to an item of a page: the value mapped
  to the full name of the item when the item is of button type and the value is not
  empty. The rectangle of an item, read with \<open>float\<close>. The rectangle that an item
  contributes to the checked rectangles of its page: its rectangle, when a state is
  assigned to it that is not \<open>/Off\<close> in any casing.
\<close>

definition widget_state :: "(string \<times> string) list \<Rightarrow> store \<Rightarrow> pdfobj \<Rightarrow> string option" where
  "widget_state btn st annot_ref =
     (let annot = get_object_or_self st annot_ref
      in case field_type st annot of
           Inl e \<Rightarrow> None
         | Inr ft \<Rightarrow>
             if is_btn ft then
               (case build_full_name st annot of
                  Some (Inr full_name) \<Rightarrow>
                    (case map_of btn full_name of
                       None \<Rightarrow> None
                     | Some sval \<Rightarrow> if sval = [] then None else Some sval)
                | _ \<Rightarrow> None)
             else None)"

definition widget_rect :: "store \<Rightarrow> pdfobj \<Rightarrow> real list option" where
  "widget_rect st annot_ref =
     (case py_get st (get_object_or_self st annot_ref) ''/Rect'' of
        Inr (Some rect) \<Rightarrow>
          if truthy rect then (case coords_of st rect of Inr cs \<Rightarrow> Some cs | Inl e \<Rightarrow> None)
          else None
      | _ \<Rightarrow> None)"

definition checked_rect :: "(string \<times> string) list \<Rightarrow> store \<Rightarrow> pdfobj \<Rightarrow> real list option" where
  "checked_rect btn st annot_ref =
     (case widget_state btn st annot_ref of
        None \<Rightarrow> None
      | Some sval \<Rightarrow> if str_lower sval \<noteq> ''/off'' then widget_rect st annot_ref else None)"

text \<open>A rectangle that holds no reference: it reads the same in every object table.\<close>

fun is_direct :: "pdfobj \<Rightarrow> bool" where
  "is_direct (IndirectObject n) = False"
| "is_direct (ArrayObject xs) = (\<forall>x \<in> set xs. \<forall>n. x \<noteq> IndirectObject n)"
| "is_direct ob = True"

definition direct_rect :: "store \<Rightarrow> pdfobj \<Rightarrow> bool" where
  "direct_rect st annot_ref =
     (\<forall>rect. py_get st (get_object_or_self st annot_ref) ''/Rect'' = Inr (Some rect) \<longrightarrow>
        is_direct rect)"

text \<open>\<open>checked_by_page.get(p, [])\<close>, and the rectangles that the items of a page
  contribute.\<close>

definition rects_of :: "(nat \<times> real list list) list \<Rightarrow> nat \<Rightarrow> real list list" where
  "rects_of checked p = (case map_of checked p of None \<Rightarrow> [] | Some rects \<Rightarrow> rects)"

text \<open>Objects of the table whose name is mapped.\<close>

definition mapped_object :: "(string \<times> string) list \<Rightarrow> store \<Rightarrow> nat \<Rightarrow> bool" where
  "mapped_object btn st n =
     (\<exists>x full_name sval. st n = Some x \<and> build_full_name st x = Some (Inr full_name) \<and>
        map_of btn full_name = Some sval)"

definition page_rects :: "(string \<times> string) list \<Rightarrow> store \<Rightarrow> page \<Rightarrow> real list list" where
  "page_rects btn st pg = List.map_filter (checked_rect btn st) (page_annots pg)"

text \<open>Two writers with the same object table, the same root and the same annotation
  items on every page; they may differ in the content of their pages.\<close>

definition same_fields :: "writer \<Rightarrow> writer \<Rightarrow> bool" where
  "same_fields w1 w2 =
     (writer_objects w1 = writer_objects w2 \<and> writer_root w1 = writer_root w2 \<and>
      map page_annots (writer_pages w1) = map page_annots (writer_pages w2))"

section \<open>Examples\<close>

definition no_objects :: store where
  "no_objects = (\<lambda>n. None)"

text \<open>A check box whose declared states start with \<open>/Off\<close>.\<close>

definition off_first_field :: pdfobj where
  "off_first_field = DictionaryObject
     [(''/FT'', NameObject ''/Btn''), (''/T'', TextStringObject ''agree''),
      (''/_States_'', ArrayObject [NameObject ''/Off'', NameObject ''/1''])]"

text \<open>
  A radio group as pypdf reports it when the group may not be toggled off: the declared
  states are \<open>/1\<close> and \<open>/2\<close>, and each of the two widgets has an appearance for its own
  state and one for \<open>/Off\<close>.
\<close>

definition radio_objects :: store where
  "radio_objects =
     [10 \<mapsto> DictionaryObject
        [(''/Parent'', IndirectObject 1),
         (''/AP'', DictionaryObject
            [(''/N'', DictionaryObject
               [(''/1'', DictionaryObject []), (''/Off'', DictionaryObject [])])])],
      11 \<mapsto> DictionaryObject
        [(''/Parent'', IndirectObject 1),
         (''/AP'', DictionaryObject
            [(''/N'', DictionaryObject
               [(''/2'', DictionaryObject []), (''/Off'', DictionaryObject [])])])]]"

definition radio_field :: pdfobj where
  "radio_field = DictionaryObject
     [(''/FT'', NameObject ''/Btn''), (''/T'', TextStringObject ''choice''),
      (''/Kids'', ArrayObject [IndirectObject 10, IndirectObject 11]),
      (''/_States_'', ArrayObject [NameObject ''/1'', NameObject ''/2''])]"

text \<open>A check box \<open>agree\<close> under the field \<open>form\<close>, and a widget that is its own parent.\<close>

definition form_objects :: store where
  "form_objects =
     [1 \<mapsto> DictionaryObject
        [(''/T'', TextStringObject ''form''), (''/Kids'', ArrayObject [IndirectObject 2])],
      2 \<mapsto> DictionaryObject
        [(''/FT'', NameObject ''/Btn''), (''/T'', TextStringObject ''agree''),
         (''/Parent'', IndirectObject 1)]]"

definition agree_widget :: pdfobj where
  "agree_widget = DictionaryObject
     [(''/FT'', NameObject ''/Btn''), (''/T'', TextStringObject ''agree''),
      (''/Parent'', IndirectObject 1)]"

definition cyclic_objects :: store where
  "cyclic_objects =
     [7 \<mapsto> DictionaryObject [(''/FT'', NameObject ''/Btn''), (''/Parent'', IndirectObject 7)]]"

definition cyclic_widget :: pdfobj where
  "cyclic_widget =
     DictionaryObject [(''/FT'', NameObject ''/Btn''), (''/Parent'', IndirectObject 7)]"

text \<open>A widget whose parent entry is a name, and one whose parent entry is null.\<close>

definition name_parent_widget :: pdfobj where
  "name_parent_widget = DictionaryObject
     [(''/T'', TextStringObject ''kid''), (''/Parent'', NameObject ''/X'')]"

definition null_parent_widget :: pdfobj where
  "null_parent_widget = DictionaryObject
     [(''/T'', TextStringObject ''kid''), (''/Parent'', NullObject)]"




text \<open>The overlay instruction of scenario C, a Letter page, and a writer without pages.\<close>

definition hello_overlay :: json where
  "hello_overlay = JObj
     [(''page'', JInt 1), (''x'', JInt 100), (''y'', JInt 700), (''text'', JStr ''Hello''),
      (''fontSize'', JInt 10)]"

definition letter_page :: "string \<Rightarrow> page" where
  "letter_page body =
     \<lparr>page_annots = [], box_width = 612, box_height = 792, page_contents = [Existing body]\<rparr>"

definition blank_writer :: writer where
  "blank_writer = \<lparr>writer_pages = [], writer_objects = (\<lambda>n. None), writer_root = []\<rparr>"

text \<open>
  Scenarios A and B: a document with one Letter page that holds the check box \<open>agree\<close>
  (object 2, unchecked) and a text field named \<open>__overlays\<close> (object 3), and the same
  two fields as the reader reports them, the check box with its declared states.
\<close>

definition checkbox_objects :: store where
  "checkbox_objects =
     [2 \<mapsto> DictionaryObject
        [(''/FT'', NameObject ''/Btn''), (''/T'', TextStringObject ''agree''),
         (''/Rect'', ArrayObject [NumberObject 100, NumberObject 200, NumberObject 112,
                                  NumberObject 212]),
         (''/AS'', NameObject ''/Off''), (''/V'', NameObject ''/Off'')],
      3 \<mapsto> DictionaryObject
        [(''/FT'', NameObject ''/Tx''), (''/T'', TextStringObject ''__overlays''),
         (''/Rect'', ArrayObject [NumberObject 100, NumberObject 300, NumberObject 300,
                                  NumberObject 320]),
         (''/V'', TextStringObject ''keep'')]]"

definition checkbox_writer :: writer where
  "checkbox_writer =
     \<lparr>writer_pages =
        [\<lparr>page_annots = [IndirectObject 2, IndirectObject 3], box_width = 612, box_height = 792,
          page_contents = [Existing ''form'']\<rparr>],
      writer_objects = checkbox_objects, writer_root = []\<rparr>"

definition agree_field :: pdfobj where
  "agree_field = DictionaryObject
     [(''/FT'', NameObject ''/Btn''), (''/T'', TextStringObject ''agree''),
      (''/_States_'', ArrayObject [NameObject ''/1'', NameObject ''/Off''])]"

definition overlays_field :: pdfobj where
  "overlays_field = DictionaryObject
     [(''/FT'', NameObject ''/Tx''), (''/T'', TextStringObject ''__overlays''),
      (''/V'', TextStringObject ''keep'')]"

text \<open>
  A stand-in for pypdf in the examples: \<open>update_page_form_field_values\<close> writes \<open>/V\<close> of
  the annotations of the page whose \<open>/T\<close> is a key of the mapping.
\<close>

definition write_value :: "(string \<times> json) list \<Rightarrow> store \<Rightarrow> pdfobj \<Rightarrow> store" where
  "write_value mapping st annot_ref =
     (case annot_ref of
        IndirectObject n \<Rightarrow>
          (case st n of
             Some (DictionaryObject d) \<Rightarrow>
               (case map_of d ''/T'' of
                  Some t \<Rightarrow>
                    (case map_of mapping (py_str t) of
                       Some v \<Rightarrow>
                         st(n \<mapsto> DictionaryObject (dict_set d ''/V'' (TextStringObject (json_str v))))
                     | None \<Rightarrow> st)
                | None \<Rightarrow> st)
           | _ \<Rightarrow> st)
      | _ \<Rightarrow> st)"

definition example_library :: library where
  "example_library =
     \<lparr>set_need_appearances_writer = (\<lambda>w. w),
      update_page_form_field_values =
        (\<lambda>w p mapping.
           Inr (w\<lparr>writer_objects :=
                    foldl (write_value mapping) (writer_objects w)
                      (page_annots (writer_pages w ! p))\<rparr>))\<rparr>"

text \<open>The reader of the scenario document, a body that has the reserved key with a string
  as its value, and the dictionary of the check box with given \<open>/AS\<close> and \<open>/V\<close>.\<close>

definition overlays_reader :: reader where
  "overlays_reader =
     \<lparr>reader_objects = no_objects,
      reader_fields = Some [(''agree'', agree_field), (''__overlays'', overlays_field)]\<rparr>"

definition overlays_body :: "(string \<times> json) list" where
  "overlays_body = [(''agree'', JBool True), (''__overlays'', JStr ''changed'')]"

definition agree_dict :: "pdfobj \<Rightarrow> pdfobj \<Rightarrow> pdfobj" where
  "agree_dict a v = DictionaryObject
        [(''/FT'', NameObject ''/Btn''), (''/T'', TextStringObject ''agree''),
         (''/Rect'', ArrayObject [NumberObject 100, NumberObject 200, NumberObject 112,
                                  NumberObject 212]),
         (''/AS'', a), (''/V'', v)]"

section \<open>Properties\<close>

lemma first_on_cases:
  "(\<exists>i<length states. str_lower (states ! i) \<noteq> ''/off'' \<and>
       (\<forall>j<i. str_lower (states ! j) = ''/off'') \<and> first_on states = states ! i) \<or>
   ((\<forall>s \<in> set states. str_lower s = ''/off'') \<and> first_on states = ''/Yes'')"
proof (induction states)
  case Nil
  show ?case by simp
next
  case (Cons s ss)
  show ?case
  proof (cases "str_lower s \<noteq> ''/off''")
    case True
    then have "str_lower ((s # ss) ! 0) \<noteq> ''/off'' \<and>
        (\<forall>j<0. str_lower ((s # ss) ! j) = ''/off'') \<and> first_on (s # ss) = (s # ss) ! 0"
      by simp
    then show ?thesis by blast
  next
    case off: False
    from Cons.IH show ?thesis
    proof
      assume "\<exists>i<length ss. str_lower (ss ! i) \<noteq> ''/off'' \<and>
          (\<forall>j<i. str_lower (ss ! j) = ''/off'') \<and> first_on ss = ss ! i"
      then obtain i where i: "i < length ss" "str_lower (ss ! i) \<noteq> ''/off''"
          "\<forall>j<i. str_lower (ss ! j) = ''/off''" "first_on ss = ss ! i"
        by blast
      have "\<forall>j<Suc i. str_lower ((s # ss) ! j) = ''/off''"
      proof (intro allI impI)
        fix j assume "j < Suc i"
        then show "str_lower ((s # ss) ! j) = ''/off''"
          using off i(3) by (cases j) auto
      qed
      with i off have "Suc i < length (s # ss) \<and> str_lower ((s # ss) ! Suc i) \<noteq> ''/off'' \<and>
          (\<forall>j<Suc i. str_lower ((s # ss) ! j) = ''/off'') \<and> first_on (s # ss) = (s # ss) ! Suc i"
        by simp
      then show ?thesis by blast
    next
      assume "(\<forall>s \<in> set ss. str_lower s = ''/off'') \<and> first_on ss = ''/Yes''"
      with off show ?thesis by simp
    qed
  qed
qed

text \<open>
  C1. For every button field, \<open>on_value\<close> returns the first entry of the field's list of
  legal states that differs from \<open>/Off\<close> when letter case is ignored: every entry before
  it is \<open>/Off\<close> in some casing. When there is no such entry (the list is empty, or all its
  entries are \<open>/Off\<close> in some casing) it returns \<open>/Yes\<close>.
\<close>

theorem on_value_first_state_not_off:
  assumes "button_states st field_dict = Inr states"
  shows "(\<exists>i<length states. str_lower (states ! i) \<noteq> str_lower ''/Off'' \<and>
            (\<forall>j<i. str_lower (states ! j) = str_lower ''/Off'') \<and>
            on_value st field_dict = Inr (states ! i)) \<or>
         ((\<forall>s \<in> set states. str_lower s = str_lower ''/Off'') \<and>
            on_value st field_dict = Inr ''/Yes'')"
proof -
  have low: "str_lower ''/Off'' = ''/off''"
    by (simp add: str_lower_def str_lower_char_def)
  have "on_value st field_dict = Inr (first_on states)"
    using assms by (simp add: on_value_def and_then_def)
  then show ?thesis
    using first_on_cases [of states] by (simp add: low)
qed

theorem on_value_first_state_not_off_witness:
  "button_states no_objects off_first_field = Inr [''/Off'', ''/1''] \<and>
   on_value no_objects off_first_field = Inr ''/1''"
proof -
  have h: "button_states no_objects off_first_field = Inr [''/Off'', ''/1'']"
    by (simp add: button_states_def off_first_field_def no_objects_def py_get_def py_iter_def
        widgets_of_def and_then_def slash_def)
  have l: "str_lower ''/Off'' = ''/off''" "str_lower ''/1'' = ''/1''"
    by (simp_all add: str_lower_def str_lower_char_def)
  show ?thesis
    using on_value_first_state_not_off [OF h] h
    by (auto simp: l less_Suc_eq numeral_2_eq_2)
qed

text \<open>
  C3. The field \<open>radio_field\<close> carries the declared states \<open>/1\<close>, \<open>/2\<close>, already in
  slash-prefixed form. \<open>_button_states\<close> does not return that list: it goes on to the
  appearance dictionaries of the widgets although a declared list is present, and appends
  their key \<open>/Off\<close>.
\<close>

theorem button_states_reads_appearances_after_declared_states:
  "py_get radio_objects radio_field ''/_States_'' =
     Inr (Some (ArrayObject [NameObject ''/1'', NameObject ''/2''])) \<and>
   button_states radio_objects radio_field = Inr [''/1'', ''/2'', ''/Off'']"
  by (simp add: button_states_def radio_field_def radio_objects_def py_get_def py_iter_def
      py_contains_def py_getitem_def widgets_of_def and_then_def slash_def)

text \<open>
  C7. For every field, whatever states it declares, \<open>normalize\<close> maps the Boolean
  \<open>true\<close>, the string \<open>on\<close> and the string \<open>Yes\<close> to the same result, which is that of
  \<open>on_value\<close> for the field.
\<close>

theorem normalize_true_on_yes_is_on_value:
  "normalize_checkbox_value st (JBool True) field_dict = on_value st field_dict \<and>
   normalize_checkbox_value st (JStr ''on'') field_dict = on_value st field_dict \<and>
   normalize_checkbox_value st (JStr ''Yes'') field_dict = on_value st field_dict"
  by (simp add: normalize_checkbox_value_def str_strip_def is_space_def str_lower_def
      str_lower_char_def)

lemma name_step_next:
  "name_step st ob parts = Inr (obj', parts') \<Longrightarrow> obj' = parent_of st ob"
  by (auto simp: name_step_def parent_of_def and_then_def split: sum.splits option.splits)

lemma loop_returns_if_chain_ends:
  "ancestor st k ob = None \<Longrightarrow> \<exists>r. full_name_loop st (Some ob) parts = Some r"
proof (induction k arbitrary: ob parts)
  case 0
  then show ?case by simp
next
  case (Suc k)
  show ?case
  proof (cases "truthy ob")
    case False
    then show ?thesis by (subst full_name_loop.simps) simp
  next
    case True
    show ?thesis
    proof (cases "name_step st ob parts")
      case (Inl e)
      with True show ?thesis by (subst full_name_loop.simps) simp
    next
      case (Inr nx)
      obtain obj' parts' where n: "nx = (obj', parts')" by (cases nx)
      with Inr have obj': "obj' = parent_of st ob" by (simp add: name_step_next)
      have step: "full_name_loop st (Some ob) parts = full_name_loop st obj' parts'"
        using True Inr n by (subst full_name_loop.simps) simp
      show ?thesis
      proof (cases obj')
        case None
        then have "full_name_loop st obj' parts' = Some (Inr parts')"
          by (subst full_name_loop.simps) simp
        with step show ?thesis by simp
      next
        case (Some p)
        with obj' have "parent_of st ob = Some p" by simp
        with Suc.prems have "ancestor st k p = None" by simp
        from Suc.IH [OF this] Some step show ?thesis by simp
      qed
    qed
  qed
qed

lemma chain_ends_if_loop_returns:
  assumes "full_name_loop st obj parts = Some r"
  shows "obj = None \<or> (\<exists>k. ancestor st k (the obj) = None)"
  using assms
proof (induction st obj parts r rule: full_name_loop.raw_induct [rotated 1, consumes 1])
  case (1 loop st obj parts r)
  show ?case
  proof (cases obj)
    case None
    then show ?thesis by simp
  next
    case (Some ob)
    show ?thesis
    proof (cases "parent_of st ob")
      case None
      then have "ancestor st (Suc 0) ob = None" by simp
      with Some show ?thesis by (metis option.sel)
    next
      case p: (Some p)
      then have tr: "truthy ob"
        by (cases ob)
          (auto simp: parent_of_def py_get_def split: option.splits pdfobj.splits if_splits)
      from p obtain t where "name_step st ob parts = Inr (Some p, t)"
        by (auto simp: parent_of_def name_step_def and_then_def py_get_def
            split: sum.splits option.splits if_splits pdfobj.splits)
      with 1(2) Some tr have "loop st (Some p) t = Some r" by simp
      from 1(1) [OF this] obtain k where "ancestor st k p = None" by auto
      with p have "ancestor st (Suc k) ob = None" by simp
      with Some show ?thesis by (metis option.sel)
    qed
  qed
qed

lemma not_dictionary_raises:
  "\<not> is_dictionary st ob \<Longrightarrow> name_step st ob parts = Inl AttributeError"
  by (auto simp: is_dictionary_def name_step_def py_get_def and_then_def
      split: option.splits pdfobj.splits)

lemma dictionary_steps:
  "is_dictionary st ob \<Longrightarrow> \<exists>parts'. name_step st ob parts = Inr (parent_of st ob, parts')"
  by (auto simp: is_dictionary_def name_step_def parent_of_def py_get_def and_then_def
      split: option.splits pdfobj.splits)

lemma parent_is_of_dictionary: "parent_of st ob = Some p \<Longrightarrow> truthy ob \<and> is_dictionary st ob"
  by (cases ob)
    (auto simp: parent_of_def py_get_def is_dictionary_def
      split: option.splits pdfobj.splits if_splits)

lemma loop_raises_at_other_object:
  "ancestor st k ob = Some p \<Longrightarrow> truthy p \<Longrightarrow> \<not> is_dictionary st p \<Longrightarrow>
     full_name_loop st (Some ob) parts = Some (Inl AttributeError)"
proof (induction k arbitrary: ob parts)
  case 0
  then have "ob = p" by simp
  with 0 show ?case
    by (subst full_name_loop.simps) (simp add: not_dictionary_raises)
next
  case (Suc k)
  from Suc.prems(1) obtain q where q: "parent_of st ob = Some q" and a: "ancestor st k q = Some p"
    by (auto split: option.splits)
  from parent_is_of_dictionary [OF q] have t: "truthy ob" and d: "is_dictionary st ob"
    by simp_all
  from dictionary_steps [OF d, of parts] q obtain parts' where
    "name_step st ob parts = Inr (Some q, parts')"
    by auto
  with t have "full_name_loop st (Some ob) parts = full_name_loop st (Some q) parts'"
    by (subst full_name_loop.simps) simp
  with Suc.IH [OF a Suc.prems(2) Suc.prems(3), of parts'] show ?case by simp
qed

lemma loop_names_chain_of_dictionaries:
  "ancestor st k ob = None \<Longrightarrow>
   (\<forall>j p. ancestor st j ob = Some p \<and> truthy p \<longrightarrow> is_dictionary st p) \<Longrightarrow>
     \<exists>ps. full_name_loop st (Some ob) parts = Some (Inr ps)"
proof (induction k arbitrary: ob parts)
  case 0
  then show ?case by simp
next
  case (Suc k)
  show ?case
  proof (cases "truthy ob")
    case False
    then show ?thesis by (subst full_name_loop.simps) simp
  next
    case True
    have "ancestor st 0 ob = Some ob" by simp
    with Suc.prems(2) True have d: "is_dictionary st ob" by blast
    from dictionary_steps [OF d, of parts] obtain parts' where
      n: "name_step st ob parts = Inr (parent_of st ob, parts')"
      by auto
    with True have step:
      "full_name_loop st (Some ob) parts = full_name_loop st (parent_of st ob) parts'"
      by (subst full_name_loop.simps) simp
    show ?thesis
    proof (cases "parent_of st ob")
      case None
      then have "full_name_loop st (parent_of st ob) parts' = Some (Inr parts')"
        by (subst full_name_loop.simps) simp
      with step show ?thesis by simp
    next
      case (Some q)
      with Suc.prems(1) have a: "ancestor st k q = None" by simp
      have "\<forall>j p. ancestor st j q = Some p \<and> truthy p \<longrightarrow> is_dictionary st p"
      proof (intro allI impI)
        fix j p
        assume "ancestor st j q = Some p \<and> truthy p"
        with Some have "ancestor st (Suc j) ob = Some p \<and> truthy p" by simp
        with Suc.prems(2) show "is_dictionary st p" by blast
      qed
      from Suc.IH [OF a this, of parts'] Some step show ?thesis by simp
    qed
  qed
qed

text \<open>
  C4 (as amended). \<open>_build_full_name\<close> has no guard against a parent chain that does not
  end. It returns or raises exactly when the parent chain of the node is finite, that is,
  when some number of steps along the \<open>/Parent\<close> entries leads to an object without a
  parent. It returns a name exactly when, moreover, every object on the chain that counts
  as true is a dictionary. It raises exactly when the chain reaches an object that counts
  as true and is no dictionary, and what it raises then is \<open>AttributeError\<close>. On every
  other node it never returns.
\<close>

theorem build_full_name_returns_iff_parent_chain_ends:
  "((\<exists>r. build_full_name st annot = Some r) = (\<exists>k. ancestor st k annot = None)) \<and>
   ((\<exists>name. build_full_name st annot = Some (Inr name)) =
      ((\<exists>k. ancestor st k annot = None) \<and>
       (\<forall>k ob. ancestor st k annot = Some ob \<and> truthy ob \<longrightarrow> is_dictionary st ob))) \<and>
   ((\<exists>e. build_full_name st annot = Some (Inl e)) =
      (\<exists>k ob. ancestor st k annot = Some ob \<and> truthy ob \<and> \<not> is_dictionary st ob)) \<and>
   (\<forall>e. build_full_name st annot = Some (Inl e) \<longrightarrow> e = AttributeError) \<and>
   ((build_full_name st annot = None) = (\<forall>k. ancestor st k annot \<noteq> None))"
proof -
  have ends: "(\<exists>r. build_full_name st annot = Some r) = (\<exists>k. ancestor st k annot = None)"
  proof
    assume "\<exists>r. build_full_name st annot = Some r"
    then obtain r where "full_name_loop st (Some annot) [] = Some r"
      by (auto simp: build_full_name_def)
    from chain_ends_if_loop_returns [OF this] show "\<exists>k. ancestor st k annot = None" by simp
  next
    assume "\<exists>k. ancestor st k annot = None"
    then obtain k where "ancestor st k annot = None" ..
    from loop_returns_if_chain_ends [OF this, of "[]"]
    show "\<exists>r. build_full_name st annot = Some r"
      by (auto simp: build_full_name_def)
  qed
  then have never: "(build_full_name st annot = None) = (\<forall>k. ancestor st k annot \<noteq> None)"
    by (cases "build_full_name st annot") auto
  show ?thesis
  proof (cases "\<exists>k ob. ancestor st k annot = Some ob \<and> truthy ob \<and> \<not> is_dictionary st ob")
    case True
    then obtain k ob where "ancestor st k annot = Some ob" "truthy ob" "\<not> is_dictionary st ob"
      by blast
    from loop_raises_at_other_object [OF this, of "[]"]
    have r: "build_full_name st annot = Some (Inl AttributeError)"
      by (simp add: build_full_name_def)
    from r ends have "\<exists>k. ancestor st k annot = None" by blast
    with r True ends never show ?thesis by auto
  next
    case False
    then have dicts: "\<forall>k ob. ancestor st k annot = Some ob \<and> truthy ob \<longrightarrow> is_dictionary st ob"
      by blast
    show ?thesis
    proof (cases "\<exists>k. ancestor st k annot = None")
      case fin: True
      then obtain k where "ancestor st k annot = None" ..
      from loop_names_chain_of_dictionaries [OF this dicts, of "[]"]
      obtain name where r: "build_full_name st annot = Some (Inr name)"
        by (auto simp: build_full_name_def)
      with False dicts fin ends never show ?thesis by auto
    next
      case inf: False
      with never have r: "build_full_name st annot = None" by simp
      with False dicts inf ends never show ?thesis by auto
    qed
  qed
qed

lemma parent_of_agree: "parent_of form_objects agree_widget = Some (DictionaryObject
        [(''/T'', TextStringObject ''form''), (''/Kids'', ArrayObject [IndirectObject 2])])"
  by (simp add: parent_of_def py_get_def agree_widget_def form_objects_def get_object_or_self_def)

lemma build_full_name_agree:
  "build_full_name form_objects agree_widget = Some (Inr ''form.agree'')"
  unfolding build_full_name_def agree_widget_def
  apply (subst full_name_loop.simps)
  apply (simp add: name_step_def py_get_def and_then_def form_objects_def get_object_or_self_def)
  apply (subst full_name_loop.simps)
  apply (simp add: name_step_def py_get_def and_then_def form_objects_def get_object_or_self_def)
  apply (subst full_name_loop.simps)
  apply simp
  done

lemma name_parent_raises:
  "ancestor no_objects 2 name_parent_widget = None \<and>
   build_full_name no_objects name_parent_widget = Some (Inl AttributeError) \<and>
   ancestor no_objects 2 null_parent_widget = None \<and>
   build_full_name no_objects null_parent_widget = Some (Inl AttributeError)"
proof -
  have p: "parent_of no_objects name_parent_widget = Some (NameObject ''/X'')"
    "parent_of no_objects null_parent_widget = Some NullObject"
    by (simp_all add: parent_of_def py_get_def name_parent_widget_def null_parent_widget_def
        get_object_or_self_def)
  have q: "parent_of no_objects (NameObject ''/X'') = None" "parent_of no_objects NullObject = None"
    by (simp_all add: parent_of_def py_get_def)
  have a: "ancestor no_objects 1 name_parent_widget = Some (NameObject ''/X'')"
    "ancestor no_objects 1 null_parent_widget = Some NullObject"
    using p by simp_all
  have "\<not> is_dictionary no_objects (NameObject ''/X'')" "\<not> is_dictionary no_objects NullObject"
    by (simp_all add: is_dictionary_def)
  with a loop_raises_at_other_object [of no_objects 1 _ _ "[]"]
  have "build_full_name no_objects name_parent_widget = Some (Inl AttributeError)"
    "build_full_name no_objects null_parent_widget = Some (Inl AttributeError)"
    by (simp_all add: build_full_name_def)
  moreover have "ancestor no_objects 2 name_parent_widget = None"
    "ancestor no_objects 2 null_parent_widget = None"
    using p q by (simp_all add: numeral_2_eq_2)
  ultimately show ?thesis by simp
qed

theorem build_full_name_returns_witness:
  "ancestor form_objects 2 agree_widget = None \<and>
   build_full_name form_objects agree_widget = Some (Inr ''form.agree'') \<and>
   ancestor no_objects 1 name_parent_widget = Some (NameObject ''/X'') \<and>
   truthy (NameObject ''/X'') \<and> is_dictionary no_objects (NameObject ''/X'') = False \<and>
   build_full_name no_objects name_parent_widget = Some (Inl AttributeError)"
proof -
  note t = build_full_name_returns_iff_parent_chain_ends [of no_objects name_parent_widget]
  note raises = t [THEN conjunct2, THEN conjunct2, THEN conjunct1]
  note which = t [THEN conjunct2, THEN conjunct2, THEN conjunct2, THEN conjunct1]
  have a: "ancestor form_objects 2 agree_widget = None"
    by (simp add: numeral_2_eq_2 parent_of_agree) (simp add: parent_of_def py_get_def)
  then have "\<exists>k. ancestor form_objects k agree_widget = None" ..
  then have "\<exists>r. build_full_name form_objects agree_widget = Some r"
    using build_full_name_returns_iff_parent_chain_ends [of form_objects agree_widget] by blast
  have x: "ancestor no_objects 1 name_parent_widget = Some (NameObject ''/X'')"
    by (simp add: parent_of_def py_get_def name_parent_widget_def get_object_or_self_def)
  have n: "is_dictionary no_objects (NameObject ''/X'') = False"
    by (simp add: is_dictionary_def)
  from x n have "\<exists>k ob. ancestor no_objects k name_parent_widget = Some ob \<and> truthy ob \<and>
      \<not> is_dictionary no_objects ob"
    by (intro exI [of _ 1] exI [of _ "NameObject ''/X''"]) simp
  with raises obtain e where e: "build_full_name no_objects name_parent_widget = Some (Inl e)"
    by blast
  with which have "e = AttributeError" by blast
  with e have "build_full_name no_objects name_parent_widget = Some (Inl AttributeError)"
    by simp
  with a build_full_name_agree x n show ?thesis by simp
qed

lemma cyclic_parent: "parent_of cyclic_objects cyclic_widget = Some cyclic_widget"
  by (simp add: parent_of_def py_get_def cyclic_widget_def cyclic_objects_def get_object_or_self_def)

lemma cyclic_ancestor: "ancestor cyclic_objects k cyclic_widget = Some cyclic_widget"
  by (induction k) (simp_all add: cyclic_parent)

text \<open>On the widget whose \<open>/Parent\<close> entry refers to the widget itself the loop never ends.\<close>

theorem build_full_name_cyclic_parent_never_returns:
  "build_full_name cyclic_objects cyclic_widget = None"
proof (cases "full_name_loop cyclic_objects (Some cyclic_widget) []")
  case None
  then show ?thesis by (simp add: build_full_name_def)
next
  case (Some r)
  from chain_ends_if_loop_returns [OF this] show ?thesis by (simp add: cyclic_ancestor)
qed












lemma latin1_code_points: "latin1 (code_points s)"
proof -
  have "(of_char c :: nat) < 256" for c
  proof -
    have "(of_char c :: nat) mod 256 < 256" by simp
    then show ?thesis by simp
  qed
  then show ?thesis by (simp add: latin1_def code_points_def list_all_iff)
qed

lemma hello_cell:
  "draw_text_item 792 hello_overlay (new_canvas ''pt'' w 792) =
     Inr ((new_canvas ''pt'' w 792)
            \<lparr>cur_font := (''Helvetica'', [], 10), cur_color := (0, 0, 0), cur_x := w, cur_y := 88,
             drawn := [\<lparr>cell_x = 100, cell_y = 88, cell_w = w - 100, cell_h = 10,
                        cell_text = code_points ''Hello'', cell_align = [],
                        cell_font = (''Helvetica'', [], 10), cell_color = (0, 0, 0)\<rparr>]\<rparr>)"
proof -
  have "json_str (JStr ''Hello'') = ''Hello''" by simp
  then show ?thesis
    by (simp add: draw_text_item_def hello_overlay_def and_then_def new_canvas_def set_font_def
        set_text_color_def set_xy_def draw_cell_def will_page_break_def put_cell_def
        latin1_code_points Let_def)
qed

text \<open>
  C6. The overlay instruction \<open>{page: 1, x: 100, y: 700, text: "Hello", fontSize: 10}\<close>
  on a document whose only page is 792 points tall: \<open>_apply_text_overlays\<close> merges one
  canvas onto the page, with one cell on its first page. The code converts the ordinate
  to \<open>y' = 792 - 700 = 92\<close> and places the cell with its top edge at
  \<open>y' - 0.4 * 10 = 88\<close>; the cell is as high as the font size, so the text is written with
  its baseline at \<open>y' + 0.4 * 10 = 96\<close> from the top of the canvas.
\<close>

theorem hello_overlay_baseline_at_96:
  assumes "box_height pg = 792"
  shows "\<exists>canvas c.
     apply_text_overlays (w\<lparr>writer_pages := [pg]\<rparr>) [hello_overlay] =
       Inr (w\<lparr>writer_pages := [merge_page pg canvas]\<rparr>) \<and>
     canvas_unit canvas = ''pt'' \<and> canvas_h canvas = 792 \<and>
     drawn canvas = [c] \<and> later_pages canvas = [] \<and>
     cell_text c = code_points ''Hello'' \<and> cell_x c = 100 \<and>
     cell_y c = (792 - 700) - 0.4 * 10 \<and> cell_h c = 10 \<and>
     text_baseline (canvas_unit canvas) c = (792 - 700) + 0.4 * 10 \<and>
     text_baseline (canvas_unit canvas) c = 96"
proof -
  let ?canvas = "(new_canvas ''pt'' (box_width pg) 792)
            \<lparr>cur_font := (''Helvetica'', [], 10), cur_color := (0, 0, 0),
             cur_x := box_width pg, cur_y := 88,
             drawn := [\<lparr>cell_x = 100, cell_y = 88, cell_w = box_width pg - 100, cell_h = 10,
                        cell_text = code_points ''Hello'', cell_align = [],
                        cell_font = (''Helvetica'', [], 10), cell_color = (0, 0, 0)\<rparr>]\<rparr>"
  have g: "group_by_page [hello_overlay] [] = Inr [((0, True), [hello_overlay])]"
    by (simp add: hello_overlay_def and_then_def)
  have "overlay_pages [((0, True), [hello_overlay])] [pg] = Inr [merge_page pg (first_page ?canvas)]"
    using assms by (simp add: hello_cell and_then_def Let_def)
  with g have "apply_text_overlays (w\<lparr>writer_pages := [pg]\<rparr>) [hello_overlay] =
       Inr (w\<lparr>writer_pages := [merge_page pg (first_page ?canvas)]\<rparr>)"
    by (simp add: apply_text_overlays_def and_then_def)
  moreover have "canvas_unit (first_page ?canvas) = ''pt''" "canvas_h (first_page ?canvas) = 792"
    "later_pages (first_page ?canvas) = []"
    by (simp_all add: new_canvas_def first_page_def)
  moreover have "drawn (first_page ?canvas) = [hd (drawn ?canvas)]"
    by (simp add: first_page_def)
  moreover have "text_baseline ''pt'' (hd (drawn ?canvas)) = 96"
    by (simp add: text_baseline_def unit_scale_def)
  ultimately show ?thesis
    by (intro exI [of _ "first_page ?canvas"] exI [of _ "hd (drawn ?canvas)"]) simp
qed

theorem hello_overlay_baseline_witness:
  "box_height (letter_page ''form'') = 792 \<and>
   (\<exists>canvas c.
     apply_text_overlays (blank_writer\<lparr>writer_pages := [letter_page ''form'']\<rparr>) [hello_overlay] =
       Inr (blank_writer\<lparr>writer_pages := [merge_page (letter_page ''form'') canvas]\<rparr>) \<and>
     drawn canvas = [c] \<and> cell_y c = 88 \<and> text_baseline ''pt'' c = 96)"
proof -
  have h: "box_height (letter_page ''form'') = 792" by (simp add: letter_page_def)
  from hello_overlay_baseline_at_96 [OF h, of blank_writer] obtain canvas c where
    "apply_text_overlays (blank_writer\<lparr>writer_pages := [letter_page ''form'']\<rparr>) [hello_overlay] =
       Inr (blank_writer\<lparr>writer_pages := [merge_page (letter_page ''form'') canvas]\<rparr>)"
    "canvas_unit canvas = ''pt''" "drawn canvas = [c]" "cell_y c = (792 - 700) - 0.4 * 10"
    "text_baseline (canvas_unit canvas) c = 96"
    by blast
  then have "apply_text_overlays (blank_writer\<lparr>writer_pages := [letter_page ''form'']\<rparr>) [hello_overlay] =
       Inr (blank_writer\<lparr>writer_pages := [merge_page (letter_page ''form'') canvas]\<rparr>) \<and>
     drawn canvas = [c] \<and> cell_y c = 88 \<and> text_baseline ''pt'' c = 96"
    by simp
  with h show ?thesis by blast
qed

text \<open>
  C5. A request with the right content types, a document that parses and the JSON body
  \<open>[1]\<close>, which is not an object: the \<open>HTTPException\<close> of status 400 is raised inside
  the \<open>try\<close>, after the document has been parsed and copied, and the handler of the
  \<open>try\<close> answers with status 500. With a document that does not parse the answer is the
  parse failure, whatever the body is.
\<close>

theorem fill_form_non_object_body_is_status_500:
  "fill_form lib ''application/pdf'' ''application/json'' (Inr (rd, blank_writer))
       (Inr (JArr [JInt 1])) =
     Some (Inl (HTTPException 500
       (Caught ''Error al rellenar el PDF: ''
          (HTTPException 400 (Detail ''El JSON debe ser un objeto.''))))) \<and>
   fill_form lib ''application/pdf'' ''application/json'' (Inl (LibraryError ''PdfReadError''))
       (Inr (JArr [JInt 1])) =
     Some (Inl (HTTPException 500
       (Caught ''Error al rellenar el PDF: '' (LibraryError ''PdfReadError''))))"
  by (simp add: fill_form_def fill_form_try_def and_next_def raised_def remove_xfa_def
      blank_writer_def)

lemma header_overlay_returns:
  "(\<exists>canvas. create_header_overlay w h txt = Inr canvas) = latin1 txt"
  by (simp add: create_header_overlay_def draw_cell_def Let_def)

lemma header_overlay_raises:
  "\<not> latin1 txt \<Longrightarrow> create_header_overlay w h txt = Inl FPDFUnicodeEncodingException"
  by (simp add: create_header_overlay_def draw_cell_def Let_def)


lemma header_lost_on_short_page:
  assumes "create_header_overlay w h txt = Inr canvas" and "h * 25.4 / 72 < 8"
  shows "drawn (first_page canvas) = [] \<and> later_pages (first_page canvas) = [] \<and>
    map (map cell_text) (later_pages canvas) = [[txt]]"
proof -
  from assms(1) have "latin1 txt"
    using header_overlay_returns [of w h "txt"] by blast
  with assms show ?thesis
    by (auto simp: create_header_overlay_def draw_cell_def will_page_break_def put_cell_def
        page_break_def set_y_def set_text_color_def set_font_def new_canvas_def first_page_def
        Let_def)
qed


lemma stamp_pages_raises:
  "\<not> latin1 txt \<Longrightarrow> pgs \<noteq> [] \<Longrightarrow>
     stamp_pages txt pgs out = Inl FPDFUnicodeEncodingException"
  by (cases pgs) (simp_all add: header_overlay_raises and_then_def Let_def)


lemma stamp_header_text_outside_latin1:
  "\<not> latin1 txt \<Longrightarrow> pgs \<noteq> [] \<Longrightarrow>
     stamp_header ''application/pdf'' (Inr pgs) txt =
       Inl (HTTPException 500
         (Caught ''Error al estampar header: '' (Raised FPDFUnicodeEncodingException)))"
  by (simp add: stamp_header_def stamp_pages_raises)













lemma same_but_state_refl: "same_but_state d d"
  by (simp add: same_but_state_def)

lemma same_but_state_sym: "same_but_state d d' \<Longrightarrow> same_but_state d' d"
  by (simp add: same_but_state_def)

lemma same_but_state_trans:
  assumes ab: "same_but_state a b" and bc: "same_but_state b c"
  shows "same_but_state a c"
proof -
  have e: "a = [] \<longleftrightarrow> c = []"
    using ab bc unfolding same_but_state_def by blast
  have "\<forall>k. k \<noteq> ''/AS'' \<longrightarrow> k \<noteq> ''/V'' \<longrightarrow> map_of c k = map_of a k"
  proof (intro allI impI)
    fix k :: string
    assume k: "k \<noteq> ''/AS''" "k \<noteq> ''/V''"
    from ab k have "map_of b k = map_of a k" unfolding same_but_state_def by blast
    moreover from bc k have "map_of c k = map_of b k" unfolding same_but_state_def by blast
    ultimately show "map_of c k = map_of a k" by (rule trans [rotated])
  qed
  with e show ?thesis unfolding same_but_state_def by blast
qed

lemma same_but_state_empty: "same_but_state d d' \<Longrightarrow> (d = []) = (d' = [])"
  unfolding same_but_state_def by blast

lemma same_but_state_get:
  "same_but_state d d' \<Longrightarrow> k \<noteq> ''/AS'' \<Longrightarrow> k \<noteq> ''/V'' \<Longrightarrow> map_of d' k = map_of d k"
  unfolding same_but_state_def by blast

lemma sim_refl: "sim a a"
  by (simp add: sim_def)

lemma sim_sym: "sim a b \<Longrightarrow> sim b a"
  by (auto simp: sim_def dest: same_but_state_sym)

lemma sim_trans:
  assumes "sim a b" "sim b c"
  shows "sim a c"
proof (cases "a = b \<or> b = c")
  case True
  with assms show ?thesis by auto
next
  case False
  with assms obtain d1 d2 d3 d4 where
    "a = DictionaryObject d1" "b = DictionaryObject d2" "same_but_state d1 d2"
    "b = DictionaryObject d3" "c = DictionaryObject d4" "same_but_state d3 d4"
    unfolding sim_def by blast
  then have "a = DictionaryObject d1" "c = DictionaryObject d4" "same_but_state d1 d4"
    using same_but_state_trans [of d1 d2 d4] by simp_all
  then show ?thesis unfolding sim_def by blast
qed

lemma sim_opt_refl: "sim_opt x x"
  by (simp add: sim_opt_def sim_refl split: option.splits)

lemma sim_opt_sym: "sim_opt x y \<Longrightarrow> sim_opt y x"
  by (auto simp: sim_opt_def split: option.splits dest: sim_sym)

lemma frame_refl: "frame st st"
  by (simp add: frame_def sim_opt_refl)

lemma frame_sym: "frame st0 st \<Longrightarrow> frame st st0"
  by (simp add: frame_def sim_opt_sym)

lemma sim_truthy:
  assumes "sim a b"
  shows "truthy a = truthy b"
proof (cases "a = b")
  case True
  then show ?thesis by simp
next
  case False
  with assms obtain d d' where "a = DictionaryObject d" "b = DictionaryObject d'"
      "same_but_state d d'"
    unfolding sim_def by blast
  then show ?thesis using same_but_state_empty [of d d'] by simp
qed

lemma sim_opt_is_true: "sim_opt x y \<Longrightarrow> is_true x = is_true y"
  by (auto simp: sim_opt_def split: option.splits dest: sim_truthy)

lemma target_sim:
  assumes "frame st0 st" "sim a b"
  shows "sim_opt (target st0 a) (target st b)"
proof (cases "a = b")
  case True
  with assms(1) show ?thesis
    by (cases b) (simp_all add: frame_def sim_opt_def sim_refl)
next
  case False
  with assms(2) show ?thesis by (auto simp: sim_def sim_opt_def)
qed

lemma py_get_frame:
  assumes "frame st0 st" "sim a b" "k \<noteq> ''/AS''" "k \<noteq> ''/V''"
  shows "py_get st b k = py_get st0 a k"
proof -
  from target_sim [OF assms(1,2)] have s: "sim_opt (target st0 a) (target st b)" .
  show ?thesis
  proof (cases "target st0 a")
    case None
    with s show ?thesis by (simp add: sim_opt_def py_get_def)
  next
    case (Some x)
    with s obtain y where y: "target st b = Some y" "sim x y"
      by (auto simp: sim_opt_def split: option.splits)
    show ?thesis
    proof (cases "x = y")
      case True
      with Some y(1) show ?thesis by (simp add: py_get_def)
    next
      case False
      with y(2) obtain d d' where "x = DictionaryObject d" "y = DictionaryObject d'"
          "same_but_state d d'"
        unfolding sim_def by blast
      with Some y(1) same_but_state_get [of d d' k] assms(3,4) show ?thesis
        by (simp add: py_get_def)
    qed
  qed
qed

lemma get_object_sim:
  assumes "frame st0 st"
  shows "sim (get_object_or_self st0 p) (get_object_or_self st p)"
proof -
  from target_sim [OF assms sim_refl, of p] show ?thesis
    by (auto simp: sim_opt_def get_object_or_self_def sim_refl split: option.splits)
qed

lemma name_step_frame:
  assumes "frame st0 st" "sim a b"
  shows "(case name_step st0 a parts of
            Inl e \<Rightarrow> name_step st b parts = Inl e
          | Inr (o0, ps) \<Rightarrow> (\<exists>ob. name_step st b parts = Inr (ob, ps) \<and> sim_opt o0 ob))"
proof -
  have t: "py_get st b ''/T'' = py_get st0 a ''/T''"
    and p: "py_get st b ''/Parent'' = py_get st0 a ''/Parent''"
    using assms by (simp_all add: py_get_frame)
  show ?thesis
    using get_object_sim [OF assms(1)]
    by (auto simp: name_step_def t p and_then_def sim_opt_def split: sum.splits)
qed

lemma loop_frame_Some:
  assumes "full_name_loop st0 obj0 parts = Some r" "frame st0 st" "sim_opt obj0 obj"
  shows "full_name_loop st obj parts = Some r"
  using assms
proof (induction st0 obj0 parts r arbitrary: obj
    rule: full_name_loop.raw_induct [rotated 1, consumes 1])
  case (1 loop st0 obj0 parts r)
  have tr: "is_true obj = is_true obj0"
    using "1.prems"(2) by (simp add: sim_opt_is_true)
  show ?case
  proof (cases "is_true obj0")
    case False
    with 1(2) tr show ?thesis by (subst full_name_loop.simps) simp
  next
    case True
    then obtain a where a: "obj0 = Some a" by (cases obj0) auto
    with "1.prems"(2) obtain b where b: "obj = Some b" "sim a b"
      by (auto simp: sim_opt_def split: option.splits)
    note f = name_step_frame [OF "1.prems"(1) b(2), of parts]
    show ?thesis
    proof (cases "name_step st0 a parts")
      case (Inl e)
      with f have "name_step st b parts = Inl e" by simp
      with 1(2) True a Inl tr b show ?thesis by (subst full_name_loop.simps) simp
    next
      case (Inr nx)
      obtain o0 ps where nx: "nx = (o0, ps)" by (cases nx)
      with f Inr obtain ob where ob: "name_step st b parts = Inr (ob, ps)" "sim_opt o0 ob"
        by auto
      from 1(2) True a Inr nx have "loop st0 o0 ps = Some r" by simp
      from 1(1) [OF this "1.prems"(1) ob(2)] have "full_name_loop st ob ps = Some r" .
      with tr True b ob show ?thesis by (subst full_name_loop.simps) simp
    qed
  qed
qed

lemma loop_frame:
  assumes "frame st0 st" "sim_opt obj0 obj"
  shows "full_name_loop st obj parts = full_name_loop st0 obj0 parts"
proof (cases "full_name_loop st0 obj0 parts")
  case (Some r)
  from loop_frame_Some [OF this assms] Some show ?thesis by simp
next
  case None
  show ?thesis
  proof (cases "full_name_loop st obj parts")
    case n: None
    with None show ?thesis by simp
  next
    case (Some r)
    from loop_frame_Some [OF this frame_sym [OF assms(1)] sim_opt_sym [OF assms(2)]] None
    show ?thesis by simp
  qed
qed

lemma build_full_name_frame:
  assumes "frame st0 st" "sim a b"
  shows "build_full_name st b = build_full_name st0 a"
  using loop_frame [OF assms(1), of "Some a" "Some b" "[]"] assms(2)
  by (simp add: build_full_name_def sim_opt_def)

lemma field_type_frame:
  assumes "frame st0 st" "sim a b"
  shows "field_type st b = field_type st0 a"
proof -
  have f: "py_get st b ''/FT'' = py_get st0 a ''/FT''"
    and p: "py_get st b ''/Parent'' = py_get st0 a ''/Parent''"
    using assms by (simp_all add: py_get_frame)
  have "\<And>x. py_get st (get_object_or_self st x) ''/FT'' =
      py_get st0 (get_object_or_self st0 x) ''/FT''"
    using assms(1) get_object_sim [OF assms(1)] by (simp add: py_get_frame)
  then show ?thesis
    by (simp add: field_type_def f p and_then_def split: sum.splits)
qed

lemma map_of_dict_set: "map_of (dict_set d k v) = (map_of d)(k \<mapsto> v)"
  by (induction d k v rule: dict_set.induct) (auto simp: fun_eq_iff)

lemma dict_set_nonempty: "dict_set d k v \<noteq> []"
  by (cases d) (auto split: if_splits)

lemma set_state_nonempty: "set_state d sval \<noteq> []"
  by (simp add: set_state_def dict_set_nonempty)

lemma set_state_get:
  "k \<noteq> ''/AS'' \<Longrightarrow> k \<noteq> ''/V'' \<Longrightarrow> map_of (set_state d sval) k = map_of d k"
  by (simp add: set_state_def map_of_dict_set)

lemma set_state_value:
  "map_of (set_state d sval) ''/V'' = Some (NameObject sval)"
  "map_of (set_state d sval) ''/AS'' = Some (NameObject sval)"
  by (simp_all add: set_state_def map_of_dict_set)

lemma same_but_state_set: "d \<noteq> [] \<Longrightarrow> same_but_state d (set_state d sval)"
  unfolding same_but_state_def using set_state_nonempty set_state_get by blast

lemma frame_update:
  assumes f: "frame st0 st" and n: "st n = Some (DictionaryObject d)" and d: "d \<noteq> []"
  shows "frame st0 (st(n \<mapsto> DictionaryObject (set_state d sval)))"
  unfolding frame_def
proof
  fix m
  show "sim_opt (st0 m) ((st(n \<mapsto> DictionaryObject (set_state d sval))) m)"
  proof (cases "m = n")
    case False
    with f show ?thesis by (simp add: frame_def)
  next
    case True
    from f have "sim_opt (st0 n) (st n)" by (simp add: frame_def)
    with n obtain x where x: "st0 n = Some x" "sim x (DictionaryObject d)"
      by (auto simp: sim_opt_def split: option.splits)
    have "sim (DictionaryObject d) (DictionaryObject (set_state d sval))"
      unfolding sim_def using same_but_state_set [OF d] by blast
    with x(2) have "sim x (DictionaryObject (set_state d sval))" by (rule sim_trans)
    with x(1) True show ?thesis by (simp add: sim_opt_def)
  qed
qed

lemma field_type_target:
  assumes "field_type st annot = Inr ft"
  shows "\<exists>d. target st annot = Some (DictionaryObject d)"
  using assms
  by (auto simp: field_type_def py_get_def and_then_def
      split: option.splits pdfobj.splits sum.splits)

lemma btn_nonempty:
  assumes "field_type st annot = Inr ft" "is_btn ft" "target st annot = Some (DictionaryObject d)"
  shows "d \<noteq> []"
proof
  assume "d = []"
  with assms(3) have "\<And>k. py_get st annot k = Inr None" by (simp add: py_get_def)
  with assms(1) have "ft = None" by (simp add: field_type_def and_then_def)
  with assms(2) show False by (simp add: is_btn_def)
qed

lemma floats_direct:
  "\<forall>x \<in> set xs. \<forall>n. x \<noteq> IndirectObject n \<Longrightarrow> floats st xs = floats st' xs"
proof (induction xs)
  case Nil
  show ?case by simp
next
  case (Cons x xs)
  then have "py_float st x = py_float st' x" by (cases x) (simp_all add: py_float_def)
  with Cons show ?case by simp
qed

lemma coords_of_direct:
  assumes "is_direct rect"
  shows "coords_of st rect = coords_of st' rect"
proof (cases rect)
  case (ArrayObject xs)
  with assms show ?thesis
    using floats_direct [of xs st st'] by (simp add: coords_of_def py_iter_def and_then_def)
next
  case (IndirectObject n)
  with assms show ?thesis by simp
next
  case (DictionaryObject d)
  have "\<forall>x \<in> set (map (\<lambda>kv. NameObject (fst kv)) d). \<forall>n. x \<noteq> IndirectObject n" by auto
  from floats_direct [OF this] DictionaryObject show ?thesis
    by (simp add: coords_of_def py_iter_def and_then_def)
next
  case (NameObject s)
  have "\<forall>x \<in> set (map (\<lambda>c. TextStringObject [c]) s). \<forall>n. x \<noteq> IndirectObject n" by auto
  from floats_direct [OF this] NameObject show ?thesis
    by (simp add: coords_of_def py_iter_def and_then_def)
next
  case (TextStringObject s)
  have "\<forall>x \<in> set (map (\<lambda>c. TextStringObject [c]) s). \<forall>n. x \<noteq> IndirectObject n" by auto
  from floats_direct [OF this] TextStringObject show ?thesis
    by (simp add: coords_of_def py_iter_def and_then_def)
qed (simp_all add: coords_of_def py_iter_def and_then_def)

lemma update_annot_frame:
  assumes f: "frame st0 st"
    and t: "target st (get_object_or_self st a) = Some (DictionaryObject d)"
    and d: "d \<noteq> []"
    and u: "update_annot st a (get_object_or_self st a) sval = (item, st1)"
  shows "frame st0 st1 \<and>
         sim (get_object_or_self st0 a) (get_object_or_self st1 item) \<and>
         py_get st1 (get_object_or_self st1 item) ''/V'' = Inr (Some (NameObject sval)) \<and>
         py_get st1 (get_object_or_self st1 item) ''/AS'' = Inr (Some (NameObject sval)) \<and>
         (\<forall>n. st1 n = st n \<or> st n = Some (DictionaryObject d)) \<and>
         (item = a \<or> a = DictionaryObject d)"
proof (cases a)
  case (IndirectObject n)
  show ?thesis
  proof (cases "st n")
    case None
    with IndirectObject t show ?thesis by (simp add: get_object_or_self_def)
  next
    case (Some x)
    with IndirectObject have g: "get_object_or_self st a = x"
      by (simp add: get_object_or_self_def)
    show ?thesis
    proof (cases x)
      case (DictionaryObject d')
      with t g have dd: "d' = d" by simp
      with u g DictionaryObject IndirectObject
      have r: "item = a" "st1 = st(n \<mapsto> DictionaryObject (set_state d sval))"
        by (simp_all add: update_annot_def)
      from Some DictionaryObject dd have sn: "st n = Some (DictionaryObject d)" by simp
      have f1: "frame st0 st1" unfolding r(2) using f sn d by (rule frame_update)
      have go: "get_object_or_self st1 item = DictionaryObject (set_state d sval)"
        using r IndirectObject by (simp add: get_object_or_self_def)
      from get_object_sim [OF f1, of a] r(1)
      have "sim (get_object_or_self st0 a) (get_object_or_self st1 item)" by simp
      with f1 go r sn show ?thesis by (simp add: py_get_def set_state_value)
    next
      case io: (IndirectObject m)
      with t g have sm: "st m = Some (DictionaryObject d)" by simp
      with Some io have nm: "n \<noteq> m" by auto
      from u g io sm IndirectObject
      have r: "item = a" "st1 = st(m \<mapsto> DictionaryObject (set_state d sval))"
        by (simp_all add: update_annot_def)
      have f1: "frame st0 st1" unfolding r(2) using f sm d by (rule frame_update)
      have go: "get_object_or_self st1 item = IndirectObject m"
        using r IndirectObject Some io nm by (simp add: get_object_or_self_def)
      from get_object_sim [OF f1, of a] r(1)
      have "sim (get_object_or_self st0 a) (get_object_or_self st1 item)" by simp
      with f1 go r sm show ?thesis by (simp add: py_get_def set_state_value)
    qed (use t g in simp_all)
  qed
next
  case (DictionaryObject d')
  then have g: "get_object_or_self st a = a" by (simp add: get_object_or_self_def)
  with t DictionaryObject have dd: "d' = d" by simp
  with u g DictionaryObject have r: "item = DictionaryObject (set_state d sval)" "st1 = st"
    by (simp_all add: update_annot_def)
  have "sim (DictionaryObject d) (DictionaryObject (set_state d sval))"
    unfolding sim_def using same_but_state_set [OF d] by blast
  with f r DictionaryObject dd show ?thesis
    by (simp add: get_object_or_self_def py_get_def set_state_value)
qed (use t in \<open>simp_all add: get_object_or_self_def\<close>)

lemma build_full_name_indirect:
  assumes "st m = Some (DictionaryObject d)" "d \<noteq> []"
  shows "build_full_name st (IndirectObject m) = build_full_name st (DictionaryObject d)"
proof -
  have "\<And>k. py_get st (IndirectObject m) k = py_get st (DictionaryObject d) k"
    using assms(1) by (simp add: py_get_def)
  then have "name_step st (IndirectObject m) [] = name_step st (DictionaryObject d) []"
    by (simp add: name_step_def)
  then have e: "name_step st (IndirectObject m) [] = name_step st (DictionaryObject d) []" .
  have "full_name_loop st (Some (IndirectObject m)) [] =
      (case name_step st (IndirectObject m) [] of
         Inl e \<Rightarrow> Some (Inl e)
       | Inr (obj', parts') \<Rightarrow> full_name_loop st obj' parts')"
    by (subst full_name_loop.simps) simp
  moreover have "full_name_loop st (Some (DictionaryObject d)) [] =
      (case name_step st (DictionaryObject d) [] of
         Inl e \<Rightarrow> Some (Inl e)
       | Inr (obj', parts') \<Rightarrow> full_name_loop st obj' parts')"
    using assms(2) by (subst full_name_loop.simps) simp
  ultimately show ?thesis by (simp add: build_full_name_def e)
qed

lemma mark_annot_frame:
  assumes f: "frame st0 st"
    and run: "mark_annot btn i a st ch = Some (Inr (item, st1, ch1))"
  shows "frame st0 st1 \<and>
         (direct_rect st0 a \<longrightarrow>
            ch1 = (case checked_rect btn st0 a of None \<Rightarrow> ch | Some cs \<Rightarrow> checked_add i cs ch)) \<and>
         (\<forall>n. st1 n = st n \<or> mapped_object btn st0 n) \<and>
         (item = a \<or> widget_state btn st0 a \<noteq> None) \<and>
         (\<forall>sval. widget_state btn st0 a = Some sval \<longrightarrow>
            py_get st1 (get_object_or_self st1 item) ''/V'' = Inr (Some (NameObject sval)) \<and>
            py_get st1 (get_object_or_self st1 item) ''/AS'' = Inr (Some (NameObject sval)))"
proof -
  let ?annot = "get_object_or_self st a"
  let ?orig = "get_object_or_self st0 a"
  have s: "sim ?orig ?annot" using f by (rule get_object_sim)
  have fte: "field_type st ?annot = field_type st0 ?orig" using f s by (rule field_type_frame)
  have nme: "build_full_name st ?annot = build_full_name st0 ?orig"
    using f s by (rule build_full_name_frame)
  from run obtain ft where ft: "field_type st ?annot = Inr ft"
    by (cases "field_type st ?annot") (simp_all add: mark_annot_def and_next_def Let_def)
  show ?thesis
  proof (cases "is_btn ft")
    case False
    with ft run have "item = a" "st1 = st" "ch1 = ch"
      by (simp_all add: mark_annot_def and_next_def Let_def)
    moreover from False ft fte have "widget_state btn st0 a = None"
      by (simp add: widget_state_def Let_def)
    ultimately show ?thesis using f by (simp add: checked_rect_def)
  next
    case btn: True
    from run ft btn obtain full_name where nm: "build_full_name st ?annot = Some (Inr full_name)"
      by (cases "build_full_name st ?annot"; cases "the (build_full_name st ?annot)")
         (simp_all add: mark_annot_def and_next_def Let_def)
    show ?thesis
    proof (cases "map_of btn full_name")
      case None
      with ft btn nm run have "item = a" "st1 = st" "ch1 = ch"
        by (simp_all add: mark_annot_def and_next_def Let_def)
      moreover from None ft btn nm fte nme have "widget_state btn st0 a = None"
        by (simp add: widget_state_def Let_def)
      ultimately show ?thesis using f by (simp add: checked_rect_def)
    next
      case (Some sval)
      show ?thesis
      proof (cases "sval = []")
        case True
        with Some ft btn nm run have "item = a" "st1 = st" "ch1 = ch"
          by (simp_all add: mark_annot_def and_next_def Let_def)
        moreover from True Some ft btn nm fte nme have "widget_state btn st0 a = None"
          by (simp add: widget_state_def Let_def)
        ultimately show ?thesis using f by (simp add: checked_rect_def)
      next
        case ne: False
        from Some ne ft btn nm fte nme have ws: "widget_state btn st0 a = Some sval"
          by (simp add: widget_state_def Let_def)
        obtain it st' where u: "update_annot st a ?annot sval = (it, st')"
          by (cases "update_annot st a ?annot sval")
        from field_type_target [OF ft] obtain d where
          t: "target st ?annot = Some (DictionaryObject d)" by blast
        from btn_nonempty [OF ft btn t] have d: "d \<noteq> []" .
        from update_annot_frame [OF f t d u]
        have f1: "frame st0 st'"
          and s1: "sim ?orig (get_object_or_self st' it)"
          and v: "py_get st' (get_object_or_self st' it) ''/V'' = Inr (Some (NameObject sval))"
             "py_get st' (get_object_or_self st' it) ''/AS'' = Inr (Some (NameObject sval))"
          and touched: "\<forall>n. st' n = st n \<or> st n = Some (DictionaryObject d)"
          by simp_all
        have rect: "py_get st' (get_object_or_self st' it) ''/Rect'' = py_get st0 ?orig ''/Rect''"
          using f1 s1 by (simp add: py_get_frame)
        have mapped: "\<forall>n. st' n = st n \<or> mapped_object btn st0 n"
        proof
          fix n
          show "st' n = st n \<or> mapped_object btn st0 n"
          proof (cases "st' n = st n")
            case False
            with touched have sn: "st n = Some (DictionaryObject d)" by blast
            from f have "sim_opt (st0 n) (st n)" by (simp add: frame_def)
            with sn obtain x where x: "st0 n = Some x" "sim x (DictionaryObject d)"
              by (auto simp: sim_opt_def split: option.splits)
            have upd: "build_full_name st (DictionaryObject d) = Some (Inr full_name)"
            proof (cases ?annot)
              case (DictionaryObject d')
              with t nm show ?thesis by simp
            next
              case (IndirectObject m)
              with t have "st m = Some (DictionaryObject d)" by simp
              from build_full_name_indirect [of st m d, OF this d] nm IndirectObject
              show ?thesis by simp
            qed (use t in simp_all)
            from build_full_name_frame [OF f x(2)] upd
            have "build_full_name st0 x = Some (Inr full_name)" by simp
            with x(1) Some have "mapped_object btn st0 n"
              unfolding mapped_object_def by blast
            then show ?thesis ..
          qed simp
        qed
        show ?thesis
        proof (cases "str_lower sval \<noteq> ''/off''")
          case False
          with Some ne ft btn nm u run have "item = it" "st1 = st'" "ch1 = ch"
            by (simp_all add: mark_annot_def and_next_def Let_def)
          with False ws f1 v mapped show ?thesis by (simp add: checked_rect_def)
        next
          case on: True
          from run Some ne ft btn nm u on obtain rect where
            r: "py_get st' (get_object_or_self st' it) ''/Rect'' = Inr rect"
            by (cases "py_get st' (get_object_or_self st' it) ''/Rect''")
               (simp_all add: mark_annot_def and_next_def Let_def)
          show ?thesis
          proof (cases "is_true rect")
            case False
            with run Some ne ft btn nm u on r have "item = it" "st1 = st'" "ch1 = ch"
              by (simp_all add: mark_annot_def and_next_def Let_def)
            moreover from False r rect have "widget_rect st0 a = None"
              by (cases rect) (simp_all add: widget_rect_def)
            ultimately show ?thesis using on ws f1 v mapped by (simp add: checked_rect_def)
          next
            case True
            then obtain rv where rv: "rect = Some rv" "truthy rv" by (cases rect) auto
            from run Some ne ft btn nm u on r True obtain cs where
              cs: "coords_of st' rv = Inr cs"
              by (cases "coords_of st' rv") (simp_all add: mark_annot_def and_next_def Let_def rv)
            with run Some ne ft btn nm u on r True rv
            have res: "item = it" "st1 = st'" "ch1 = checked_add i cs ch"
              by (simp_all add: mark_annot_def and_next_def Let_def)
            have "direct_rect st0 a \<longrightarrow>
                ch1 = (case checked_rect btn st0 a of None \<Rightarrow> ch | Some cs \<Rightarrow> checked_add i cs ch)"
            proof
              assume wf: "direct_rect st0 a"
              from wf r rect rv have "is_direct rv" by (simp add: direct_rect_def)
              from coords_of_direct [OF this, of st0 st'] cs have "coords_of st0 rv = Inr cs"
                by simp
              with r rect rv have "widget_rect st0 a = Some cs" by (simp add: widget_rect_def)
              with res on ws show "ch1 =
                  (case checked_rect btn st0 a of None \<Rightarrow> ch | Some cs \<Rightarrow> checked_add i cs ch)"
                by (simp add: checked_rect_def)
            qed
            with res ws f1 v mapped show ?thesis by simp
          qed
        qed
      qed
    qed
  qed
qed

lemma rects_of_checked_add:
  "rects_of (checked_add i cs ch) p = (if p = i then rects_of ch p @ [cs] else rects_of ch p)"
  by (induction i cs ch rule: checked_add.induct) (auto simp: rects_of_def)

lemma rects_of_foldl:
  "rects_of (foldl (\<lambda>c cs. checked_add i cs c) ch xs) p =
     (if p = i then rects_of ch p @ xs else rects_of ch p)"
  by (induction xs arbitrary: ch) (simp_all add: rects_of_checked_add)

lemma mark_annots_frame:
  assumes "frame st0 st"
    and "mark_annots btn i items st ch = Some (Inr (items', st1, ch1))"
  shows "frame st0 st1 \<and>
         ((\<forall>a \<in> set items. direct_rect st0 a) \<longrightarrow>
            ch1 = foldl (\<lambda>c cs. checked_add i cs c) ch
                    (List.map_filter (checked_rect btn st0) items)) \<and>
         (\<forall>n. st1 n = st n \<or> mapped_object btn st0 n) \<and>
         length items' = length items \<and>
         (\<forall>j < length items. items' ! j = items ! j \<or> widget_state btn st0 (items ! j) \<noteq> None)"
  using assms
proof (induction items arbitrary: st ch items' st1 ch1)
  case Nil
  then show ?case by (simp add: List.map_filter_simps)
next
  case (Cons a rest)
  from Cons.prems(2) obtain it st' ch' its where
    one: "mark_annot btn i a st ch = Some (Inr (it, st', ch'))"
    and more: "mark_annots btn i rest st' ch' = Some (Inr (its, st1, ch1))"
    and items': "items' = it # its"
    by (auto simp: and_next_def split: option.splits sum.splits prod.splits)
  from mark_annot_frame [OF Cons.prems(1) one]
  have f1: "frame st0 st'"
    and c1: "direct_rect st0 a \<longrightarrow>
        ch' = (case checked_rect btn st0 a of None \<Rightarrow> ch | Some cs \<Rightarrow> checked_add i cs ch)"
    and t1: "\<forall>n. st' n = st n \<or> mapped_object btn st0 n"
    and i1: "it = a \<or> widget_state btn st0 a \<noteq> None"
    by simp_all
  from Cons.IH [OF f1 more]
  have f2: "frame st0 st1"
    and c2: "(\<forall>a \<in> set rest. direct_rect st0 a) \<longrightarrow>
        ch1 = foldl (\<lambda>c cs. checked_add i cs c) ch'
                 (List.map_filter (checked_rect btn st0) rest)"
    and t2: "\<forall>n. st1 n = st' n \<or> mapped_object btn st0 n"
    and l2: "length its = length rest"
    and i2: "\<forall>j < length rest. its ! j = rest ! j \<or> widget_state btn st0 (rest ! j) \<noteq> None"
    by simp_all
  have c: "(\<forall>a \<in> set (a # rest). direct_rect st0 a) \<longrightarrow>
      ch1 = foldl (\<lambda>c cs. checked_add i cs c) ch
                 (List.map_filter (checked_rect btn st0) (a # rest))"
    using c1 c2 by (cases "checked_rect btn st0 a") (simp_all add: List.map_filter_simps)
  have t: "\<forall>n. st1 n = st n \<or> mapped_object btn st0 n"
    using t1 t2 by metis
  have i: "\<forall>j < length (a # rest). items' ! j = (a # rest) ! j \<or>
      widget_state btn st0 ((a # rest) ! j) \<noteq> None"
  proof (intro allI impI)
    fix j assume "j < length (a # rest)"
    then show "items' ! j = (a # rest) ! j \<or> widget_state btn st0 ((a # rest) ! j) \<noteq> None"
      using i1 i2 items' by (cases j) auto
  qed
  from f2 c t l2 items' i show ?case by simp
qed

lemma mark_pages_frame:
  assumes "frame st0 st"
    and "mark_pages btn i pgs st ch = Some (Inr (pgs', st1, ch1))"
  shows "frame st0 st1 \<and>
         ((\<forall>pg \<in> set pgs. \<forall>a \<in> set (page_annots pg). direct_rect st0 a) \<longrightarrow>
          (\<forall>p. rects_of ch1 p =
            rects_of ch p @
            (if i \<le> p \<and> p < i + length pgs then page_rects btn st0 (pgs ! (p - i)) else []))) \<and>
         (\<forall>n. st1 n = st n \<or> mapped_object btn st0 n) \<and>
         length pgs' = length pgs \<and>
         (\<forall>q < length pgs.
            length (page_annots (pgs' ! q)) = length (page_annots (pgs ! q)) \<and>
            (\<forall>j < length (page_annots (pgs ! q)).
               page_annots (pgs' ! q) ! j = page_annots (pgs ! q) ! j \<or>
               widget_state btn st0 (page_annots (pgs ! q) ! j) \<noteq> None))"
  using assms
proof (induction pgs arbitrary: i st ch pgs' st1 ch1)
  case Nil
  then show ?case by auto
next
  case (Cons pg rest)
  from Cons.prems(2) obtain its st' ch' out where
    one: "mark_annots btn i (page_annots pg) st ch = Some (Inr (its, st', ch'))"
    and more: "mark_pages btn (i + 1) rest st' ch' = Some (Inr (out, st1, ch1))"
    and pgs': "pgs' = pg\<lparr>page_annots := its\<rparr> # out"
    by (auto simp: and_next_def split: option.splits sum.splits prod.splits)
  from mark_annots_frame [OF Cons.prems(1) one]
  have f1: "frame st0 st'"
    and c1: "(\<forall>a \<in> set (page_annots pg). direct_rect st0 a) \<longrightarrow>
        ch' = foldl (\<lambda>c cs. checked_add i cs c) ch (page_rects btn st0 pg)"
    and t1: "\<forall>n. st' n = st n \<or> mapped_object btn st0 n"
    and l1: "length its = length (page_annots pg)"
    and i1: "\<forall>j < length (page_annots pg). its ! j = page_annots pg ! j \<or>
        widget_state btn st0 (page_annots pg ! j) \<noteq> None"
    by (simp_all add: page_rects_def)
  from Cons.IH [OF f1 more]
  have f2: "frame st0 st1"
    and c2: "(\<forall>pg \<in> set rest. \<forall>a \<in> set (page_annots pg). direct_rect st0 a) \<longrightarrow>
        (\<forall>p. rects_of ch1 p =
            rects_of ch' p @
            (if i + 1 \<le> p \<and> p < i + 1 + length rest then page_rects btn st0 (rest ! (p - (i + 1)))
             else []))"
    and t2: "\<forall>n. st1 n = st' n \<or> mapped_object btn st0 n"
    and l2: "length out = length rest"
    and i2: "\<forall>q < length rest.
            length (page_annots (out ! q)) = length (page_annots (rest ! q)) \<and>
            (\<forall>j < length (page_annots (rest ! q)).
               page_annots (out ! q) ! j = page_annots (rest ! q) ! j \<or>
               widget_state btn st0 (page_annots (rest ! q) ! j) \<noteq> None)"
    by simp_all
  have c: "(\<forall>pg \<in> set (pg # rest). \<forall>a \<in> set (page_annots pg). direct_rect st0 a) \<longrightarrow>
      (\<forall>p. rects_of ch1 p =
            rects_of ch p @
            (if i \<le> p \<and> p < i + length (pg # rest)
             then page_rects btn st0 ((pg # rest) ! (p - i)) else []))"
  proof (intro impI allI)
    fix p
    assume wf: "\<forall>pg \<in> set (pg # rest). \<forall>a \<in> set (page_annots pg). direct_rect st0 a"
    with c1 have c1': "ch' = foldl (\<lambda>c cs. checked_add i cs c) ch (page_rects btn st0 pg)"
      by simp
    from wf c2 have c2': "rects_of ch1 p =
            rects_of ch' p @
            (if i + 1 \<le> p \<and> p < i + 1 + length rest then page_rects btn st0 (rest ! (p - (i + 1)))
             else [])"
      by simp
    have r1: "rects_of ch' p = (if p = i then rects_of ch p @ page_rects btn st0 pg else rects_of ch p)"
      unfolding c1' by (rule rects_of_foldl)
    show "rects_of ch1 p =
            rects_of ch p @
            (if i \<le> p \<and> p < i + length (pg # rest)
             then page_rects btn st0 ((pg # rest) ! (p - i)) else [])"
    proof (cases "p = i")
      case True
      with c2' r1 show ?thesis by simp
    next
      case False
      show ?thesis
      proof (cases "i < p")
        case True
        then have "p - i = Suc (p - (i + 1))" by simp
        with c2' r1 False True show ?thesis by auto
      next
        case nl: False
        with False c2' r1 show ?thesis by auto
      qed
    qed
  qed
  have t: "\<forall>n. st1 n = st n \<or> mapped_object btn st0 n"
    using t1 t2 by metis
  have i: "\<forall>q < length (pg # rest).
            length (page_annots (pgs' ! q)) = length (page_annots ((pg # rest) ! q)) \<and>
            (\<forall>j < length (page_annots ((pg # rest) ! q)).
               page_annots (pgs' ! q) ! j = page_annots ((pg # rest) ! q) ! j \<or>
               widget_state btn st0 (page_annots ((pg # rest) ! q) ! j) \<noteq> None)"
  proof (intro allI impI)
    fix q assume "q < length (pg # rest)"
    then show "length (page_annots (pgs' ! q)) = length (page_annots ((pg # rest) ! q)) \<and>
            (\<forall>j < length (page_annots ((pg # rest) ! q)).
               page_annots (pgs' ! q) ! j = page_annots ((pg # rest) ! q) ! j \<or>
               widget_state btn st0 (page_annots ((pg # rest) ! q) ! j) \<noteq> None)"
      using l1 i1 i2 pgs' by (cases q) auto
  qed
  from f2 c t l2 pgs' i show ?case by simp
qed

lemma build_full_name_root:
  assumes "map_of d ''/Parent'' = None" "d \<noteq> []"
  shows "build_full_name st (DictionaryObject d) =
     Some (Inr (case map_of d ''/T'' of
                  None \<Rightarrow> []
                | Some t \<Rightarrow> if truthy t then py_str t else []))"
proof -
  have s: "name_step st (DictionaryObject d) [] =
      Inr (None, case map_of d ''/T'' of None \<Rightarrow> [] | Some t \<Rightarrow> if truthy t then [py_str t] else [])"
    using assms(1) by (simp add: name_step_def py_get_def and_then_def split: option.splits)
  have e: "\<And>parts. full_name_loop st None parts = Some (Inr parts)"
    by (subst full_name_loop.simps) simp
  have "full_name_loop st (Some (DictionaryObject d)) [] =
      Some (Inr (case map_of d ''/T'' of None \<Rightarrow> [] | Some t \<Rightarrow> if truthy t then [py_str t] else []))"
    using assms(2) by (subst full_name_loop.simps) (simp add: s e)
  then show ?thesis by (simp add: build_full_name_def split: option.splits)
qed

lemma agree_true:
  "build_mappings no_objects [(''agree'', JBool True)] [(''agree'', agree_field)] [] [] =
     Inr ([(''agree'', JStr ''/1'')], [(''agree'', ''/1'')])"
  by (simp add: agree_field_def no_objects_def py_get_def and_then_def is_btn_def
      normalize_checkbox_value_def on_value_def button_states_def py_iter_def widgets_of_def
      slash_def str_lower_def str_lower_char_def)

lemma agree_off:
  "build_mappings no_objects [(''agree'', JStr ''Off'')] [(''agree'', agree_field)] [] [] =
     Inr ([(''agree'', JStr ''/Off'')], [(''agree'', ''/Off'')])"
  by (simp add: agree_field_def no_objects_def py_get_def and_then_def is_btn_def
      normalize_checkbox_value_def str_strip_def is_space_def str_lower_def str_lower_char_def)

lemma mark_agree:
  assumes "sval \<noteq> []" "st 2 = checkbox_objects 2"
  shows "mark_annot [(''agree'', sval)] 0 (IndirectObject 2) st ch =
     Some (Inr (IndirectObject 2,
       st(2 \<mapsto> DictionaryObject
          [(''/FT'', NameObject ''/Btn''), (''/T'', TextStringObject ''agree''),
           (''/Rect'', ArrayObject [NumberObject 100, NumberObject 200, NumberObject 112,
                                    NumberObject 212]),
           (''/AS'', NameObject sval), (''/V'', NameObject sval)]),
       if str_lower sval \<noteq> ''/off'' then checked_add 0 [100, 200, 112, 212] ch else ch))"
  using assms
  by (simp add: mark_annot_def checkbox_objects_def get_object_or_self_def field_type_def
      py_get_def and_then_def and_next_def is_btn_def build_full_name_root update_annot_def
      set_state_def coords_of_def py_iter_def py_float_def Let_def)

lemma mark_overlays_field:
  assumes "st 3 = checkbox_objects 3"
  shows "mark_annot btn 0 (IndirectObject 3) st ch = Some (Inr (IndirectObject 3, st, ch))"
  using assms
  by (simp add: mark_annot_def checkbox_objects_def get_object_or_self_def field_type_def
      py_get_def and_then_def and_next_def is_btn_def Let_def)

lemma collect_agree:
  assumes "sval \<noteq> []"
  shows "collect_checked checkbox_writer [(''agree'', sval)] =
     Some (Inr (checkbox_writer\<lparr>writer_objects := checkbox_objects(2 \<mapsto> DictionaryObject
          [(''/FT'', NameObject ''/Btn''), (''/T'', TextStringObject ''agree''),
           (''/Rect'', ArrayObject [NumberObject 100, NumberObject 200, NumberObject 112,
                                    NumberObject 212]),
           (''/AS'', NameObject sval), (''/V'', NameObject sval)])\<rparr>,
       if str_lower sval \<noteq> ''/off'' then [(0, [[100, 200, 112, 212]])] else []))"
proof -
  have 1: "mark_annot [(''agree'', sval)] 0 (IndirectObject 2) checkbox_objects [] =
     Some (Inr (IndirectObject 2,
       checkbox_objects(2 \<mapsto> DictionaryObject
          [(''/FT'', NameObject ''/Btn''), (''/T'', TextStringObject ''agree''),
           (''/Rect'', ArrayObject [NumberObject 100, NumberObject 200, NumberObject 112,
                                    NumberObject 212]),
           (''/AS'', NameObject sval), (''/V'', NameObject sval)]),
       if str_lower sval \<noteq> ''/off'' then checked_add 0 [100, 200, 112, 212] [] else []))"
    using assms by (rule mark_agree) simp
  show ?thesis
    by (simp add: collect_checked_def checkbox_writer_def 1 mark_overlays_field and_next_def)
qed

lemma widget_state_Some:
  "widget_state btn st a = Some sval \<longleftrightarrow>
     (\<exists>ft full_name. field_type st (get_object_or_self st a) = Inr ft \<and> is_btn ft \<and>
        build_full_name st (get_object_or_self st a) = Some (Inr full_name) \<and>
        map_of btn full_name = Some sval \<and> sval \<noteq> [])"
  by (auto simp: widget_state_def Let_def split: sum.splits option.splits if_splits)

lemma lower_off: "str_lower ''/Off'' = ''/off''"
  by (simp add: str_lower_def str_lower_char_def)

lemma collect_checked_rects:
  assumes run: "collect_checked w btn = Some (Inr (w', checked))"
    and wf: "\<forall>pg \<in> set (writer_pages w). \<forall>a \<in> set (page_annots pg).
        direct_rect (writer_objects w) a"
  shows "\<forall>p. rects_of checked p =
     (if p < length (writer_pages w) then page_rects btn (writer_objects w) (writer_pages w ! p)
      else [])"
proof -
  from run obtain pgs st where m: "mark_pages btn 0 (writer_pages w) (writer_objects w) [] =
      Some (Inr (pgs, st, checked))"
    by (auto simp: collect_checked_def and_next_def split: option.splits sum.splits prod.splits)
  from mark_pages_frame [OF frame_refl m] wf
  have "\<forall>p. rects_of checked p =
            rects_of [] p @
            (if 0 \<le> p \<and> p < 0 + length (writer_pages w)
             then page_rects btn (writer_objects w) (writer_pages w ! (p - 0)) else [])"
    by blast
  then show ?thesis by (simp add: rects_of_def)
qed

text \<open>
  C2. Step 1 of \<open>_apply_checkbox_appearances\<close> on a document whose rectangles hold no
  references: for every page index \<open>p\<close> (from zero), the rectangles recorded under \<open>p\<close> are
  those that the items of page \<open>p\<close> contribute, in their order, and nothing is recorded
  under any other key. A state is assigned to an item exactly when it is of button type
  and its full name is mapped to a value that is not empty; an item with an assigned state
  and a rectangle contributes the rectangle if and only if the state differs from \<open>/Off\<close>
  when letter case is ignored; an item without an assigned state contributes nothing.
  Scenario A: the check box with declared states \<open>/1\<close>, \<open>/Off\<close> filled with \<open>true\<close> is
  mapped to \<open>/1\<close>, gets \<open>/V\<close> and \<open>/AS\<close> \<open>/1\<close>, and its rectangle is recorded for page 0.
  Scenario B: filled with \<open>"Off"\<close> it is mapped to \<open>/Off\<close>, gets \<open>/V\<close> and \<open>/AS\<close> \<open>/Off\<close>, and
  no rectangle is recorded.
\<close>

theorem checked_rectangles_are_those_of_the_checked_buttons:
  assumes run: "collect_checked w btn = Some (Inr (w', checked))"
    and wf: "\<forall>pg \<in> set (writer_pages w). \<forall>a \<in> set (page_annots pg).
        direct_rect (writer_objects w) a"
  shows "(\<forall>p < length (writer_pages w).
            rects_of checked p =
              List.map_filter (checked_rect btn (writer_objects w))
                (page_annots (writer_pages w ! p))) \<and>
         (\<forall>p. length (writer_pages w) \<le> p \<longrightarrow> rects_of checked p = []) \<and>
         (\<forall>a sval. widget_state btn (writer_objects w) a = Some sval \<longleftrightarrow>
            (\<exists>ft full_name.
               field_type (writer_objects w) (get_object_or_self (writer_objects w) a) = Inr ft \<and>
               is_btn ft \<and>
               build_full_name (writer_objects w) (get_object_or_self (writer_objects w) a) =
                 Some (Inr full_name) \<and>
               map_of btn full_name = Some sval \<and> sval \<noteq> [])) \<and>
         (\<forall>a sval cs.
            widget_state btn (writer_objects w) a = Some sval \<and>
            widget_rect (writer_objects w) a = Some cs \<longrightarrow>
              (checked_rect btn (writer_objects w) a = Some cs) =
              (str_lower sval \<noteq> str_lower ''/Off'')) \<and>
         (\<forall>a. widget_state btn (writer_objects w) a = None \<longrightarrow>
            checked_rect btn (writer_objects w) a = None) \<and>
         build_mappings no_objects [(''agree'', JBool True)] [(''agree'', agree_field)] [] [] =
           Inr ([(''agree'', JStr ''/1'')], [(''agree'', ''/1'')]) \<and>
         (\<exists>w1. collect_checked checkbox_writer [(''agree'', ''/1'')] =
                 Some (Inr (w1, [(0, [[100, 200, 112, 212]])])) \<and>
               py_get (writer_objects w1) (IndirectObject 2) ''/V'' =
                 Inr (Some (NameObject ''/1'')) \<and>
               py_get (writer_objects w1) (IndirectObject 2) ''/AS'' =
                 Inr (Some (NameObject ''/1''))) \<and>
         build_mappings no_objects [(''agree'', JStr ''Off'')] [(''agree'', agree_field)] [] [] =
           Inr ([(''agree'', JStr ''/Off'')], [(''agree'', ''/Off'')]) \<and>
         (\<exists>w0. collect_checked checkbox_writer [(''agree'', ''/Off'')] = Some (Inr (w0, [])) \<and>
               py_get (writer_objects w0) (IndirectObject 2) ''/V'' =
                 Inr (Some (NameObject ''/Off'')) \<and>
               py_get (writer_objects w0) (IndirectObject 2) ''/AS'' =
                 Inr (Some (NameObject ''/Off'')))"
proof -
  note r = collect_checked_rects [OF run wf]
  have 1: "\<forall>p < length (writer_pages w).
            rects_of checked p =
              List.map_filter (checked_rect btn (writer_objects w))
                (page_annots (writer_pages w ! p))"
    using r by (simp add: page_rects_def)
  have 2: "\<forall>p. length (writer_pages w) \<le> p \<longrightarrow> rects_of checked p = []"
    using r by simp
  have 3: "\<forall>a sval. widget_state btn (writer_objects w) a = Some sval \<longleftrightarrow>
            (\<exists>ft full_name.
               field_type (writer_objects w) (get_object_or_self (writer_objects w) a) = Inr ft \<and>
               is_btn ft \<and>
               build_full_name (writer_objects w) (get_object_or_self (writer_objects w) a) =
                 Some (Inr full_name) \<and>
               map_of btn full_name = Some sval \<and> sval \<noteq> [])"
    using widget_state_Some by blast
  have 4: "\<forall>a sval cs.
            widget_state btn (writer_objects w) a = Some sval \<and>
            widget_rect (writer_objects w) a = Some cs \<longrightarrow>
              (checked_rect btn (writer_objects w) a = Some cs) =
              (str_lower sval \<noteq> str_lower ''/Off'')"
    by (simp add: checked_rect_def lower_off)
  have 5: "\<forall>a. widget_state btn (writer_objects w) a = None \<longrightarrow>
            checked_rect btn (writer_objects w) a = None"
    by (simp add: checked_rect_def)
  have low: "str_lower ''/1'' = ''/1''" by (simp add: str_lower_def str_lower_char_def)
  have 6: "\<exists>w1. collect_checked checkbox_writer [(''agree'', ''/1'')] =
                 Some (Inr (w1, [(0, [[100, 200, 112, 212]])])) \<and>
               py_get (writer_objects w1) (IndirectObject 2) ''/V'' =
                 Inr (Some (NameObject ''/1'')) \<and>
               py_get (writer_objects w1) (IndirectObject 2) ''/AS'' =
                 Inr (Some (NameObject ''/1''))"
    using collect_agree [of "''/1''"] by (simp add: low py_get_def)
  have 7: "\<exists>w0. collect_checked checkbox_writer [(''agree'', ''/Off'')] = Some (Inr (w0, [])) \<and>
               py_get (writer_objects w0) (IndirectObject 2) ''/V'' =
                 Inr (Some (NameObject ''/Off'')) \<and>
               py_get (writer_objects w0) (IndirectObject 2) ''/AS'' =
                 Inr (Some (NameObject ''/Off''))"
    using collect_agree [of "''/Off''"] by (simp add: lower_off py_get_def)
  from 1 2 3 4 5 6 7 agree_true agree_off show ?thesis by blast
qed

lemma checkbox_writer_direct_rects:
  "\<forall>pg \<in> set (writer_pages checkbox_writer). \<forall>a \<in> set (page_annots pg).
     direct_rect (writer_objects checkbox_writer) a"
  by (simp add: checkbox_writer_def checkbox_objects_def direct_rect_def get_object_or_self_def
      py_get_def)

theorem checked_rectangles_witness:
  "collect_checked checkbox_writer [(''agree'', ''/1'')] =
     Some (Inr (checkbox_writer\<lparr>writer_objects := checkbox_objects(2 \<mapsto> DictionaryObject
          [(''/FT'', NameObject ''/Btn''), (''/T'', TextStringObject ''agree''),
           (''/Rect'', ArrayObject [NumberObject 100, NumberObject 200, NumberObject 112,
                                    NumberObject 212]),
           (''/AS'', NameObject ''/1''), (''/V'', NameObject ''/1'')])\<rparr>,
       [(0, [[100, 200, 112, 212]])])) \<and>
   List.map_filter (checked_rect [(''agree'', ''/1'')] checkbox_objects)
     [IndirectObject 2, IndirectObject 3] = [[100, 200, 112, 212]]"
proof -
  have low: "str_lower ''/1'' = ''/1''" by (simp add: str_lower_def str_lower_char_def)
  have run: "collect_checked checkbox_writer [(''agree'', ''/1'')] =
     Some (Inr (checkbox_writer\<lparr>writer_objects := checkbox_objects(2 \<mapsto> DictionaryObject
          [(''/FT'', NameObject ''/Btn''), (''/T'', TextStringObject ''agree''),
           (''/Rect'', ArrayObject [NumberObject 100, NumberObject 200, NumberObject 112,
                                    NumberObject 212]),
           (''/AS'', NameObject ''/1''), (''/V'', NameObject ''/1'')])\<rparr>,
       [(0, [[100, 200, 112, 212]])]))"
    using collect_agree [of "''/1''"] by (simp add: low)
  from checked_rectangles_are_those_of_the_checked_buttons [OF run checkbox_writer_direct_rects]
  have "\<forall>p < length (writer_pages checkbox_writer).
            rects_of [(0, [[100, 200, 112, 212]])] p =
              List.map_filter (checked_rect [(''agree'', ''/1'')] (writer_objects checkbox_writer))
                (page_annots (writer_pages checkbox_writer ! p))"
    by blast
  then have "rects_of [(0, [[100, 200, 112, 212]])] 0 =
      List.map_filter (checked_rect [(''agree'', ''/1'')] checkbox_objects)
        [IndirectObject 2, IndirectObject 3]"
    by (simp add: checkbox_writer_def)
  then have "List.map_filter (checked_rect [(''agree'', ''/1'')] checkbox_objects)
     [IndirectObject 2, IndirectObject 3] = [[100, 200, 112, 212]]"
    by (simp add: rects_of_def)
  with run show ?thesis by blast
qed

lemma map_of_without_key: "map_of (filter (\<lambda>kv. fst kv \<noteq> k) xs) k = None"
  by (induction xs) auto

lemma build_mappings_keys:
  assumes "build_mappings st form_data flds mapping btn_map = Inr (mapping', btn_map')"
    and "map_of form_data k = None" "map_of mapping k = None" "map_of btn_map k = None"
  shows "map_of mapping' k = None \<and> map_of btn_map' k = None"
  using assms
proof (induction flds arbitrary: mapping btn_map)
  case Nil
  then show ?case by simp
next
  case (Cons entry rest)
  obtain name fobj where e: "entry = (name, fobj)" by (cases entry)
  show ?case
  proof (cases "map_of form_data name")
    case None
    with Cons e show ?thesis by simp
  next
    case (Some v)
    with Cons.prems(2) have nk: "name \<noteq> k" by auto
    from Cons.prems(1) e Some obtain ft where ft: "py_get st fobj ''/FT'' = Inr ft"
      by (cases "py_get st fobj ''/FT''") (simp_all add: and_then_def)
    show ?thesis
    proof (cases "is_btn ft")
      case True
      with Cons.prems(1) e Some ft obtain sval where
        "build_mappings st form_data rest (dict_set mapping name (JStr sval))
           (dict_set btn_map name sval) = Inr (mapping', btn_map')"
        by (cases "normalize_checkbox_value st v fobj") (simp_all add: and_then_def)
      from Cons.IH [OF this Cons.prems(2)] nk Cons.prems(3,4) show ?thesis
        by (simp add: map_of_dict_set)
    next
      case False
      with Cons.prems(1) e Some ft have
        "build_mappings st form_data rest (dict_set mapping name v) btn_map =
           Inr (mapping', btn_map')"
        by (simp add: and_then_def)
      from Cons.IH [OF this Cons.prems(2)] nk Cons.prems(3,4) show ?thesis
        by (simp add: map_of_dict_set)
    qed
  qed
qed

lemma annots_merge: "map page_annots (pgs[i := merge_page (pgs ! i) canvas]) = map page_annots pgs"
proof (cases "i < length pgs")
  case True
  then show ?thesis by (simp add: merge_page_def map_update list_update_same_conv)
next
  case False
  then have "length pgs \<le> i" by simp
  then have "pgs[i := merge_page (pgs ! i) canvas] = pgs" by (rule list_update_beyond)
  then show ?thesis by simp
qed

lemma overlay_pages_annots:
  "overlay_pages by_page pgs = Inr out \<Longrightarrow> map page_annots out = map page_annots pgs"
proof (induction by_page arbitrary: pgs)
  case Nil
  then show ?case by simp
next
  case (Cons entry rest)
  obtain k items where e: "entry = (k, items)" by (cases entry)
  show ?case
  proof (cases "fst k < 0 \<or> fst k \<ge> real (length pgs)")
    case True
    with Cons e show ?thesis by simp
  next
    case False
    from Cons.prems e False obtain overlay where
      "overlay_pages rest (pgs[nat \<lfloor>fst k\<rfloor> := merge_page (pgs ! nat \<lfloor>fst k\<rfloor>) overlay]) = Inr out"
      by (auto simp: and_then_def Let_def split: if_splits sum.splits)
    from Cons.IH [OF this] show ?thesis by (simp add: annots_merge)
  qed
qed

lemma stamp_checked_annots:
  "stamp_checked checked pgs = Inr out \<Longrightarrow> map page_annots out = map page_annots pgs"
proof (induction checked arbitrary: pgs)
  case Nil
  then show ?case by simp
next
  case (Cons entry rest)
  obtain i rects where e: "entry = (i, rects)" by (cases entry)
  from Cons.prems e obtain overlay where
    "stamp_checked rest (pgs[i := merge_page (pgs ! i) overlay]) = Inr out"
    by (auto simp: and_then_def Let_def split: sum.splits)
  from Cons.IH [OF this] show ?case by (simp add: annots_merge)
qed

lemma apply_text_overlays_fields:
  "apply_text_overlays w ovs = Inr w' \<Longrightarrow> same_fields w' w"
  by (auto simp: apply_text_overlays_def and_then_def same_fields_def
      split: sum.splits dest: overlay_pages_annots)

lemma fill_object_without_key:
  assumes "fill_object lib rd wr members = Some (Inr w1)"
  shows "\<exists>w2. fill_object lib rd wr (filter (\<lambda>kv. fst kv \<noteq> ''__overlays'') members) =
           Some (Inr w2) \<and> same_fields w1 w2"
proof -
  let ?members = "filter (\<lambda>kv. fst kv \<noteq> ''__overlays'') members"
  let ?flds = "case reader_fields rd of None \<Rightarrow> [] | Some fs \<Rightarrow> fs"
  from assms obtain mapping btn_map where
    b: "build_mappings (reader_objects rd) ?members ?flds [] [] = Inr (mapping, btn_map)"
    by (cases "build_mappings (reader_objects rd) ?members ?flds [] []")
       (auto simp: fill_object_def and_next_def raised_def Let_def)
  from assms b obtain filled where
    u: "update_pages lib [0..<length (writer_pages wr)] mapping wr = Inr filled"
    by (cases "update_pages lib [0..<length (writer_pages wr)] mapping wr")
       (auto simp: fill_object_def and_next_def raised_def Let_def)
  from assms b u obtain synced where
    s: "apply_checkbox_appearances filled btn_map = Some (Inr synced)"
    by (cases "apply_checkbox_appearances filled btn_map";
        cases "the (apply_checkbox_appearances filled btn_map)")
       (auto simp: fill_object_def and_next_def raised_def Let_def)
  have w2: "fill_object lib rd wr ?members = Some (Inr synced)"
    using b u s
    by (simp add: fill_object_def and_next_def raised_def Let_def map_of_without_key)
  have w1: "w1 = synced \<or>
      (\<exists>ovs. apply_text_overlays synced ovs = Inr w1)"
    using assms b u s
    by (auto simp: fill_object_def and_next_def raised_def Let_def
        split: option.splits json.splits if_splits sum.splits)
  then have "same_fields w1 synced"
    using apply_text_overlays_fields by (auto simp: same_fields_def)
  with w2 show ?thesis by blast
qed

lemma widget_state_name:
  assumes "widget_state btn st a \<noteq> None"
  shows "\<exists>full_name sval. build_full_name st (get_object_or_self st a) = Some (Inr full_name) \<and>
     map_of btn full_name = Some sval"
proof -
  from assms obtain sval where "widget_state btn st a = Some sval" by auto
  then show ?thesis unfolding widget_state_Some by blast
qed

lemma sync_leaves_unmapped_names:
  assumes run: "apply_checkbox_appearances w btn = Some (Inr w')"
    and un: "map_of btn k = None"
  shows "(\<forall>n x. writer_objects w n = Some x \<and>
            build_full_name (writer_objects w) x = Some (Inr k) \<longrightarrow>
            writer_objects w' n = Some x) \<and>
         length (writer_pages w') = length (writer_pages w) \<and>
         (\<forall>q < length (writer_pages w). \<forall>j < length (page_annots (writer_pages w ! q)).
            build_full_name (writer_objects w)
              (get_object_or_self (writer_objects w) (page_annots (writer_pages w ! q) ! j)) =
              Some (Inr k) \<longrightarrow>
            page_annots (writer_pages w' ! q) ! j = page_annots (writer_pages w ! q) ! j)"
proof -
  let ?st = "writer_objects w"
  let ?pgs = "writer_pages w"
  from run obtain w1 checked where c: "collect_checked w btn = Some (Inr (w1, checked))"
    and s: "and_then (stamp_checked checked (writer_pages w1))
              (\<lambda>pgs. Inr (w1\<lparr>writer_pages := pgs\<rparr>)) = Inr w'"
    by (auto simp: apply_checkbox_appearances_def and_next_def
        split: option.splits sum.splits prod.splits)
  from s obtain out where p: "stamp_checked checked (writer_pages w1) = Inr out"
    and w': "w' = w1\<lparr>writer_pages := out\<rparr>"
    by (auto simp: and_then_def split: sum.splits)
  from c obtain pgs1 st1 where m: "mark_pages btn 0 ?pgs ?st [] = Some (Inr (pgs1, st1, checked))"
    and w1: "w1 = w\<lparr>writer_pages := pgs1, writer_objects := st1\<rparr>"
    by (auto simp: collect_checked_def and_next_def split: option.splits sum.splits prod.splits)
  from mark_pages_frame [OF frame_refl m]
  have t: "\<forall>n. st1 n = ?st n \<or> mapped_object btn ?st n"
    and l: "length pgs1 = length ?pgs"
    and i: "\<forall>q < length ?pgs.
            length (page_annots (pgs1 ! q)) = length (page_annots (?pgs ! q)) \<and>
            (\<forall>j < length (page_annots (?pgs ! q)).
               page_annots (pgs1 ! q) ! j = page_annots (?pgs ! q) ! j \<or>
               widget_state btn ?st (page_annots (?pgs ! q) ! j) \<noteq> None)"
    by simp_all
  from stamp_checked_annots [OF p] have a: "map page_annots out = map page_annots pgs1"
    by (simp add: w1)
  then have lo: "length out = length pgs1" by (rule map_eq_imp_length_eq)
  have 1: "\<forall>n x. ?st n = Some x \<and> build_full_name ?st x = Some (Inr k) \<longrightarrow>
      writer_objects w' n = Some x"
  proof (intro allI impI)
    fix n x
    assume h: "?st n = Some x \<and> build_full_name ?st x = Some (Inr k)"
    have "\<not> mapped_object btn ?st n"
      using h un unfolding mapped_object_def by auto
    with t have "st1 n = ?st n" by blast
    with h show "writer_objects w' n = Some x" by (simp add: w' w1)
  qed
  have 2: "length (writer_pages w') = length ?pgs"
    using lo l by (simp add: w')
  have 3: "\<forall>q < length ?pgs. \<forall>j < length (page_annots (?pgs ! q)).
            build_full_name ?st (get_object_or_self ?st (page_annots (?pgs ! q) ! j)) =
              Some (Inr k) \<longrightarrow>
            page_annots (writer_pages w' ! q) ! j = page_annots (?pgs ! q) ! j"
  proof (intro allI impI)
    fix q j
    assume q: "q < length ?pgs" and j: "j < length (page_annots (?pgs ! q))"
      and nm: "build_full_name ?st (get_object_or_self ?st (page_annots (?pgs ! q) ! j)) =
              Some (Inr k)"
    have "widget_state btn ?st (page_annots (?pgs ! q) ! j) = None"
    proof (rule ccontr)
      assume "widget_state btn ?st (page_annots (?pgs ! q) ! j) \<noteq> None"
      from widget_state_name [OF this] nm un show False by auto
    qed
    with i q j have e: "page_annots (pgs1 ! q) ! j = page_annots (?pgs ! q) ! j" by blast
    from a q l lo have "page_annots (out ! q) = page_annots (pgs1 ! q)"
      by (metis length_map nth_map)
    with e show "page_annots (writer_pages w' ! q) ! j = page_annots (?pgs ! q) ! j"
      by (simp add: w')
  qed
  from 1 2 3 show ?thesis by blast
qed

text \<open>
  C10. The reserved key is the literal \<open>__overlays\<close>, and it is taken out of the body
  before the fields are matched. For every reader and body, neither \<open>mapping\<close> nor
  \<open>btn_map\<close> has the key \<open>__overlays\<close>. For every library, document and body for which
  \<open>fill_form\<close> returns a document, it also returns one for the body without that key, and
  the two have the same objects, root and annotation items: the key changes no stored
  value. The appearance synchronisation with a map that lacks the key leaves every
  object whose full name is \<open>__overlays\<close>, and every such item of a page, as it is.
\<close>

theorem overlays_key_never_reaches_a_field:
  "(\<forall>st flds members mapping btn_map.
      build_mappings st (filter (\<lambda>kv. fst kv \<noteq> ''__overlays'') members) flds [] [] =
        Inr (mapping, btn_map) \<longrightarrow>
      map_of mapping ''__overlays'' = None \<and> map_of btn_map ''__overlays'' = None) \<and>
   (\<forall>lib file_type data_type parsed members w1.
      fill_form lib file_type data_type parsed (Inr (JObj members)) = Some (Inr w1) \<longrightarrow>
      (\<exists>w2. fill_form lib file_type data_type parsed
               (Inr (JObj (filter (\<lambda>kv. fst kv \<noteq> ''__overlays'') members))) = Some (Inr w2) \<and>
            same_fields w1 w2)) \<and>
   (\<forall>w btn w'.
      apply_checkbox_appearances w btn = Some (Inr w') \<and> map_of btn ''__overlays'' = None \<longrightarrow>
      (\<forall>n x. writer_objects w n = Some x \<and>
          build_full_name (writer_objects w) x = Some (Inr ''__overlays'') \<longrightarrow>
          writer_objects w' n = Some x) \<and>
      length (writer_pages w') = length (writer_pages w) \<and>
      (\<forall>q < length (writer_pages w). \<forall>j < length (page_annots (writer_pages w ! q)).
          build_full_name (writer_objects w)
            (get_object_or_self (writer_objects w) (page_annots (writer_pages w ! q) ! j)) =
            Some (Inr ''__overlays'') \<longrightarrow>
          page_annots (writer_pages w' ! q) ! j = page_annots (writer_pages w ! q) ! j))"
proof -
  have p1: "\<forall>st flds members mapping btn_map.
      build_mappings st (filter (\<lambda>kv. fst kv \<noteq> ''__overlays'') members) flds [] [] =
        Inr (mapping, btn_map) \<longrightarrow>
      map_of mapping ''__overlays'' = None \<and> map_of btn_map ''__overlays'' = None"
  proof (intro allI impI)
    fix st flds members mapping btn_map
    assume "build_mappings st (filter (\<lambda>kv. fst kv \<noteq> ''__overlays'') members) flds [] [] =
        Inr (mapping, btn_map)"
    from build_mappings_keys [OF this map_of_without_key]
    show "map_of mapping ''__overlays'' = None \<and> map_of btn_map ''__overlays'' = None"
      by simp
  qed
  have p2: "\<forall>lib file_type data_type parsed members w1.
      fill_form lib file_type data_type parsed (Inr (JObj members)) = Some (Inr w1) \<longrightarrow>
      (\<exists>w2. fill_form lib file_type data_type parsed
               (Inr (JObj (filter (\<lambda>kv. fst kv \<noteq> ''__overlays'') members))) = Some (Inr w2) \<and>
            same_fields w1 w2)"
  proof (intro allI impI)
    fix lib file_type data_type parsed members w1
    assume run: "fill_form lib file_type data_type parsed (Inr (JObj members)) = Some (Inr w1)"
    let ?without = "filter (\<lambda>kv. fst kv \<noteq> ''__overlays'') members"
    from run have ct: "file_type = ''application/pdf''" "data_type = ''application/json''"
      by (auto simp: fill_form_def split: if_splits)
    from run ct have tr: "fill_form_try lib parsed (Inr (JObj members)) = Some (Inr w1)"
      by (auto simp: fill_form_def split: option.splits sum.splits)
    then obtain rd cloned without_xfa where
      ps: "parsed = Inr (rd, cloned)" and rx: "remove_xfa cloned = Inr without_xfa"
      and fo: "fill_object lib rd (set_need_appearances_writer lib without_xfa) members =
        Some (Inr w1)"
      by (cases parsed; cases "remove_xfa (snd (projr parsed))")
         (auto simp: fill_form_try_def and_next_def raised_def Let_def)
    from fill_object_without_key [OF fo] obtain w2 where
      w2: "fill_object lib rd (set_need_appearances_writer lib without_xfa) ?without =
        Some (Inr w2)" "same_fields w1 w2"
      by blast
    from ps rx w2(1) ct have "fill_form lib file_type data_type parsed (Inr (JObj ?without)) =
        Some (Inr w2)"
      by (simp add: fill_form_def fill_form_try_def and_next_def raised_def Let_def)
    with w2(2) show "\<exists>w2. fill_form lib file_type data_type parsed (Inr (JObj ?without)) =
        Some (Inr w2) \<and> same_fields w1 w2"
      by blast
  qed
  have p3: "\<forall>w btn w'.
      apply_checkbox_appearances w btn = Some (Inr w') \<and> map_of btn ''__overlays'' = None \<longrightarrow>
      (\<forall>n x. writer_objects w n = Some x \<and>
          build_full_name (writer_objects w) x = Some (Inr ''__overlays'') \<longrightarrow>
          writer_objects w' n = Some x) \<and>
      length (writer_pages w') = length (writer_pages w) \<and>
      (\<forall>q < length (writer_pages w). \<forall>j < length (page_annots (writer_pages w ! q)).
          build_full_name (writer_objects w)
            (get_object_or_self (writer_objects w) (page_annots (writer_pages w ! q) ! j)) =
            Some (Inr ''__overlays'') \<longrightarrow>
          page_annots (writer_pages w' ! q) ! j = page_annots (writer_pages w ! q) ! j)"
    using sync_leaves_unmapped_names by blast
  from p1 p2 p3 show ?thesis by (intro conjI)
qed

lemma mark_agree_any:
  assumes "sval \<noteq> []" "st 2 = Some (agree_dict a v)"
  shows "mark_annot [(''agree'', sval)] 0 (IndirectObject 2) st ch =
     Some (Inr (IndirectObject 2, st(2 \<mapsto> agree_dict (NameObject sval) (NameObject sval)),
       if str_lower sval \<noteq> ''/off'' then checked_add 0 [100, 200, 112, 212] ch else ch))"
  using assms
  by (simp add: mark_annot_def agree_dict_def get_object_or_self_def field_type_def
      py_get_def and_then_def and_next_def is_btn_def build_full_name_root update_annot_def
      set_state_def coords_of_def py_iter_def py_float_def Let_def)

lemma overlays_maps:
  "build_mappings no_objects [(''agree'', JBool True)]
     [(''agree'', agree_field), (''__overlays'', overlays_field)] [] [] =
     Inr ([(''agree'', JStr ''/1'')], [(''agree'', ''/1'')])"
  by (simp add: agree_field_def no_objects_def py_get_def and_then_def is_btn_def
      normalize_checkbox_value_def on_value_def button_states_def py_iter_def widgets_of_def
      slash_def str_lower_def str_lower_char_def)

lemma overlays_update:
  "update_pages example_library [0..<length (writer_pages checkbox_writer)]
     [(''agree'', JStr ''/1'')] checkbox_writer =
     Inr (checkbox_writer\<lparr>writer_objects :=
       checkbox_objects(2 \<mapsto> agree_dict (NameObject ''/Off'') (TextStringObject ''/1''))\<rparr>)"
  by (simp add: example_library_def checkbox_writer_def checkbox_objects_def write_value_def
      and_then_def agree_dict_def)

lemma overlays_sync:
  "\<exists>pgs. apply_checkbox_appearances
     (checkbox_writer\<lparr>writer_objects :=
       checkbox_objects(2 \<mapsto> agree_dict (NameObject ''/Off'') (TextStringObject ''/1''))\<rparr>)
     [(''agree'', ''/1'')] =
     Some (Inr (checkbox_writer\<lparr>writer_pages := pgs, writer_objects :=
       checkbox_objects(2 \<mapsto> agree_dict (NameObject ''/1'') (NameObject ''/1''))\<rparr>))"
proof -
  let ?st = "checkbox_objects(2 \<mapsto> agree_dict (NameObject ''/Off'') (TextStringObject ''/1''))"
  have low: "str_lower ''/1'' = ''/1''" by (simp add: str_lower_def str_lower_char_def)
  have 1: "mark_annot [(''agree'', ''/1'')] 0 (IndirectObject 2) ?st [] =
     Some (Inr (IndirectObject 2, ?st(2 \<mapsto> agree_dict (NameObject ''/1'') (NameObject ''/1'')),
       [(0, [[100, 200, 112, 212]])]))"
    using mark_agree_any [of "''/1''" ?st "NameObject ''/Off''" "TextStringObject ''/1''" "[]"]
    by (simp add: low)
  have 2: "mark_annot [(''agree'', ''/1'')] 0 (IndirectObject 3)
      (checkbox_objects(2 \<mapsto> agree_dict (NameObject ''/1'') (NameObject ''/1'')))
      [(0, [[100, 200, 112, 212]])] =
     Some (Inr (IndirectObject 3,
       checkbox_objects(2 \<mapsto> agree_dict (NameObject ''/1'') (NameObject ''/1'')),
       [(0, [[100, 200, 112, 212]])]))"
    by (rule mark_overlays_field) (simp add: checkbox_objects_def)
  have c: "collect_checked (checkbox_writer\<lparr>writer_objects := ?st\<rparr>) [(''agree'', ''/1'')] =
     Some (Inr (checkbox_writer\<lparr>writer_objects :=
         checkbox_objects(2 \<mapsto> agree_dict (NameObject ''/1'') (NameObject ''/1''))\<rparr>,
       [(0, [[100, 200, 112, 212]])]))"
    by (simp add: collect_checked_def checkbox_writer_def 1 2 and_next_def)
  show ?thesis
    unfolding apply_checkbox_appearances_def c
    by (simp add: and_next_def and_then_def checkbox_writer_def draw_cell_def
        latin1_code_points Let_def)
qed

theorem overlays_key_witness:
  "\<exists>w1 w2.
     fill_form example_library ''application/pdf'' ''application/json''
       (Inr (overlays_reader, checkbox_writer)) (Inr (JObj overlays_body)) = Some (Inr w1) \<and>
     fill_form example_library ''application/pdf'' ''application/json''
       (Inr (overlays_reader, checkbox_writer)) (Inr (JObj [(''agree'', JBool True)])) =
       Some (Inr w2) \<and>
     same_fields w1 w2 \<and>
     map_of overlays_body ''__overlays'' = Some (JStr ''changed'') \<and>
     build_full_name checkbox_objects (the (checkbox_objects 3)) = Some (Inr ''__overlays'') \<and>
     writer_objects w1 3 = checkbox_objects 3 \<and>
     py_get (writer_objects w1) (IndirectObject 3) ''/V'' = Inr (Some (TextStringObject ''keep'')) \<and>
     py_get (writer_objects w1) (IndirectObject 2) ''/V'' = Inr (Some (NameObject ''/1''))"
proof -
  from overlays_sync obtain pgs where s: "apply_checkbox_appearances
     (checkbox_writer\<lparr>writer_objects :=
       checkbox_objects(2 \<mapsto> agree_dict (NameObject ''/Off'') (TextStringObject ''/1''))\<rparr>)
     [(''agree'', ''/1'')] =
     Some (Inr (checkbox_writer\<lparr>writer_pages := pgs, writer_objects :=
       checkbox_objects(2 \<mapsto> agree_dict (NameObject ''/1'') (NameObject ''/1''))\<rparr>))"
    by blast
  let ?w1 = "checkbox_writer\<lparr>writer_pages := pgs, writer_objects :=
       checkbox_objects(2 \<mapsto> agree_dict (NameObject ''/1'') (NameObject ''/1''))\<rparr>"
  have rx: "remove_xfa checkbox_writer = Inr checkbox_writer"
    by (simp add: remove_xfa_def checkbox_writer_def)
  have fo: "fill_object example_library overlays_reader checkbox_writer overlays_body =
      Some (Inr ?w1)"
    using overlays_maps overlays_update s
    by (simp add: fill_object_def overlays_reader_def overlays_body_def and_next_def raised_def
        Let_def)
  have run: "fill_form example_library ''application/pdf'' ''application/json''
       (Inr (overlays_reader, checkbox_writer)) (Inr (JObj overlays_body)) = Some (Inr ?w1)"
    using rx fo
    by (simp add: fill_form_def fill_form_try_def and_next_def raised_def Let_def
        example_library_def)
  from overlays_key_never_reaches_a_field run obtain w2 where
    w2: "fill_form example_library ''application/pdf'' ''application/json''
       (Inr (overlays_reader, checkbox_writer))
       (Inr (JObj (filter (\<lambda>kv. fst kv \<noteq> ''__overlays'') overlays_body))) = Some (Inr w2)"
       "same_fields ?w1 w2"
    by blast
  from w2(1) have w2': "fill_form example_library ''application/pdf'' ''application/json''
       (Inr (overlays_reader, checkbox_writer)) (Inr (JObj [(''agree'', JBool True)])) =
       Some (Inr w2)"
    by (simp add: overlays_body_def)
  have nm: "build_full_name checkbox_objects (the (checkbox_objects 3)) = Some (Inr ''__overlays'')"
    by (simp add: checkbox_objects_def build_full_name_root)
  have v: "writer_objects ?w1 3 = checkbox_objects 3"
    "py_get (writer_objects ?w1) (IndirectObject 3) ''/V'' = Inr (Some (TextStringObject ''keep''))"
    "py_get (writer_objects ?w1) (IndirectObject 2) ''/V'' = Inr (Some (NameObject ''/1''))"
    by (simp_all add: checkbox_objects_def py_get_def agree_dict_def)
  have k: "map_of overlays_body ''__overlays'' = Some (JStr ''changed'')"
    by (simp add: overlays_body_def)
  from run w2' w2(2) k nm v show ?thesis by blast
qed

end
